theory Spec2Isabelle
  imports Complex_Main "HOL-Library.Sublist" "HOL-Library.AList"
begin

section \<open>Values shared by the components\<close>

text \<open>
  A reading of the JavaScript clock. \<open>Date.now()\<close> gives \<open>epochMs\<close>, and
  \<open>new Date().toISOString()\<close> gives \<open>isoString\<close>. The source stores time stamps as ISO
  strings and reads them back with \<open>new Date(s).getTime()\<close>; the model stores the
  millisecond value, which is what that round trip returns. One reading is used for all
  the clock reads of one call.
\<close>

record instant =
  epochMs :: int
  isoString :: string

text \<open>
  The values a free-form metadata object can hold. \<open>JSON.stringify\<close> writes all of
  them except a \<open>BigInt\<close>, on which it throws a \<open>TypeError\<close>, wherever in the value it
  stands.
\<close>

datatype jsvalue =
    JNull
  | JBool bool
  | JNumber int
  | JString string
  | JBigInt int
  | JArray "jsvalue list"
  | JObject "(string \<times> jsvalue) list"

fun jsonSerialisable :: "jsvalue \<Rightarrow> bool" where
  "jsonSerialisable (JBigInt n) = False"
| "jsonSerialisable (JArray vs) = list_all jsonSerialisable vs"
| "jsonSerialisable (JObject kvs) = list_all jsonSerialisable (map snd kvs)"
| "jsonSerialisable v = True"

text \<open>
  An entity is a duck-typed JavaScript object. A field is \<open>None\<close> when it is missing or
  has the wrong type (\<open>name\<close> and \<open>entityType\<close> not a string, \<open>observations\<close> not an
  array). Strings are byte strings. The metadata object is a list of keys and values.
\<close>

record entity =
  name :: "string option"
  entityType :: "string option"
  observations :: "string list option"
  metadata :: "(string \<times> jsvalue) list"

text \<open>\<open>JSON.stringify(e)\<close> returns a string, rather than throwing.\<close>

definition jsonStringifies :: "entity \<Rightarrow> bool" where
  "jsonStringifies e = list_all jsonSerialisable (map snd (metadata e))"

datatype error =
    CortexNotInitialized
  | L0NotInitialized
  | EntityNotFound string
  | L1NotConnected
  | InvalidName
  | InvalidEntityType
  | InvalidObservations
  | FailedToLoad error
  | FailedToStore error
  | InitializationFailed error
  | CollaboratorFailed
  | NotSerialisable

section \<open>L0Bootstrap: the reference catalog and the access tracker\<close>

datatype priorityLevel = Critical | High | Medium | Low

datatype tier = T1 | T2 | T3

datatype frequencyClass = FreqNew | FreqVeryHigh | FreqHigh | FreqMedium | FreqLow

text \<open>The rendered size: \<open>Bytes n\<close> is \<open>"<n>B"\<close>, \<open>TenthsKB t\<close> is \<open>"<t/10>KB"\<close>.\<close>

datatype sizeText = Bytes nat | TenthsKB nat

record lightweightRef =
  entityName :: string
  fileReference :: string
  summary :: string
  priority :: priorityLevel
  refSize :: sizeText
  evidenceQuality :: tier
  createdAt :: int
  lastAccessed :: int
  accessCount :: nat
  transferredAt :: "int option"

record accessPattern =
  count :: nat
  lastAccess :: int
  frequency :: frequencyClass

text \<open>
  The state of one \<open>L0Bootstrap\<close> object. The JavaScript \<open>Map\<close> of references
  is an association list in insertion order with one pair for each key: \<open>set\<close> is
  \<open>AList.update\<close>, \<open>get\<close> is \<open>map_of\<close> and \<open>size\<close> is the length. Of \<open>metrics\<close> the two counters are kept; the
  reporting figures \<open>memoryReduction\<close> and \<open>compressionRatio\<close> (floating-point, computed
  from serialised lengths by \<open>calculateMetrics\<close>) are not modelled.
\<close>

record L0Bootstrap =
  lightweightReferences :: "(string \<times> lightweightRef) list"
  accessPatterns :: "string \<rightharpoonup> accessPattern"
  l0_initialized :: bool
  entitiesTransferred :: nat
  metricsAccessCount :: nat

definition L0Bootstrap_new :: L0Bootstrap where
  "L0Bootstrap_new =
     \<lparr> lightweightReferences = [], accessPatterns = Map.empty,
       l0_initialized = False, entitiesTransferred = 0, metricsAccessCount = 0 \<rparr>"

definition sampleReferences :: "int \<Rightarrow> lightweightRef list" where
  "sampleReferences t =
     [\<lparr> entityName = ''Cortex_Access_Protocol_v3_0'',
        fileReference = ''cortex/entities/cortex_access_protocol_v3_0.json'',
        summary = ''Revolutionary AGI Memory Bootstrap Protocol'',
        priority = Critical,
        refSize = TenthsKB 21,
        evidenceQuality = T1,
        createdAt = t, lastAccessed = t, accessCount = 0, transferredAt = None \<rparr>]"

definition loadLightweightReferences :: "instant \<Rightarrow> L0Bootstrap \<Rightarrow> L0Bootstrap" where
  "loadLightweightReferences now s =
     s\<lparr> lightweightReferences :=
          fold (\<lambda>r m. AList.update (entityName r) r m) (sampleReferences (epochMs now))
               (lightweightReferences s) \<rparr>"

text \<open>
  \<open>initialize\<close> has no failing path in the source: loading, \<open>initializeAccessPatterns\<close>
  (which only logs) and \<open>calculateMetrics\<close> do not throw. It returns the number of
  references it reports as \<open>referencesLoaded\<close>.
\<close>

definition L0_initialize :: "instant \<Rightarrow> L0Bootstrap \<Rightarrow> (error + nat) \<times> L0Bootstrap" where
  "L0_initialize now s =
     (let s1 = loadLightweightReferences now s;
          s2 = s1\<lparr> l0_initialized := True \<rparr>
      in (Inr (length (lightweightReferences s2)), s2))"

definition calculateAccessFrequency :: "instant \<Rightarrow> int option \<Rightarrow> frequencyClass" where
  "calculateAccessFrequency now lastAcc =
     (case lastAcc of
        None \<Rightarrow> FreqNew
      | Some t \<Rightarrow>
          (let timeDiff = epochMs now - t;
               hoursDiff = (real_of_int timeDiff) / (1000 * 60 * 60)
           in if hoursDiff < 1 then FreqVeryHigh
              else if hoursDiff < 24 then FreqHigh
              else if hoursDiff < 168 then FreqMedium
              else FreqLow))"

definition recordAccess :: "instant \<Rightarrow> string \<Rightarrow> L0Bootstrap \<Rightarrow> L0Bootstrap" where
  "recordAccess now nm s =
     (let current = (case accessPatterns s nm of
                       None \<Rightarrow> (0, None)
                     | Some p \<Rightarrow> (count p, Some (lastAccess p)))
      in s\<lparr> accessPatterns := (accessPatterns s)(nm \<mapsto>
                \<lparr> count = fst current + 1,
                  lastAccess = epochMs now,
                  frequency = calculateAccessFrequency now (snd current) \<rparr>),
             metricsAccessCount := metricsAccessCount s + 1 \<rparr>)"

text \<open>
  \<open>getLightweightReference\<close> returns a copy of eight fields of the updated reference;
  the model returns the updated reference, which carries the same values.
\<close>

definition getLightweightReference ::
  "instant \<Rightarrow> string \<Rightarrow> L0Bootstrap \<Rightarrow> (error + lightweightRef option) \<times> L0Bootstrap" where
  "getLightweightReference now nm s =
     (if \<not> l0_initialized s then (Inl L0NotInitialized, s)
      else
        (let s1 = recordAccess now nm s
         in case map_of (lightweightReferences s1) nm of
              None \<Rightarrow> (Inr None, s1)
            | Some reference \<Rightarrow>
                (let r = reference\<lparr> lastAccessed := epochMs now,
                                     accessCount := accessCount reference + 1 \<rparr>
                 in (Inr (Some r),
                     s1\<lparr> lightweightReferences := AList.update nm r (lightweightReferences s1) \<rparr>))))"

definition generateSummary :: "entity \<Rightarrow> string" where
  "generateSummary fullEntity =
     (case observations fullEntity of
        Some (firstObs # rest) \<Rightarrow>
          take 100 firstObs @ (if length firstObs > 100 then ''...'' else '''')
      | _ \<Rightarrow>
          (case entityType fullEntity of Some t \<Rightarrow> t | None \<Rightarrow> ''undefined'') @ '' entity'')"

definition calculatePriority :: "entity \<Rightarrow> priorityLevel" where
  "calculatePriority fullEntity =
     (if entityType fullEntity = Some ''System_Bootstrap_Protocol'' then Critical
      else if (case observations fullEntity of Some os \<Rightarrow> length os > 10 | None \<Rightarrow> False)
           then High
      else if (case observations fullEntity of Some os \<Rightarrow> length os > 5 | None \<Rightarrow> False)
           then Medium
      else Low)"

text \<open>
  \<open>calculateSize\<close> takes the serialised length \<open>JSON.stringify(fullEntity).length\<close> as
  its argument; \<open>createLightweightReference\<close> below holds the case where that
  \<open>JSON.stringify\<close> throws. \<open>Math.round(sizeBytes / 1024 * 10)\<close> is the nearest integer to
  \<open>10 * sizeBytes / 1024\<close>, halves rounded up.
\<close>

definition calculateSize :: "nat \<Rightarrow> sizeText" where
  "calculateSize sizeBytes =
     (if sizeBytes > 1024 then TenthsKB ((sizeBytes * 20 + 1024) div 2048)
      else Bytes sizeBytes)"

text \<open>\<open>obs.includes(m)\<close>: the marker occurs as a contiguous substring.\<close>

fun str_includes :: "string \<Rightarrow> string \<Rightarrow> bool" where
  "str_includes [] m = (m = [])"
| "str_includes (c # cs) m = (prefix m (c # cs) \<or> str_includes cs m)"

fun scanObservations :: "string list \<Rightarrow> tier" where
  "scanObservations [] = T3"
| "scanObservations (obs # rest) =
     (if str_includes obs ''T1'' then T1
      else if str_includes obs ''T2'' then T2
      else if str_includes obs ''T3'' then T3
      else scanObservations rest)"

definition extractEvidenceQuality :: "entity \<Rightarrow> tier" where
  "extractEvidenceQuality fullEntity =
     (case observations fullEntity of
        Some os \<Rightarrow> scanObservations os
      | None \<Rightarrow> T3)"

text \<open>
  \<open>createLightweightReference\<close> builds the reference inside a \<open>try\<close> block whose
  \<open>catch\<close> rethrows. Building it calls \<open>calculateSize\<close>, whose \<open>JSON.stringify\<close>
  throws on an entity that does not serialise; the map has not been touched then.
\<close>

definition createLightweightReference ::
  "instant \<Rightarrow> nat \<Rightarrow> string \<Rightarrow> entity \<Rightarrow> string \<Rightarrow> L0Bootstrap
     \<Rightarrow> (error + lightweightRef) \<times> L0Bootstrap" where
  "createLightweightReference now sizeBytes nm fullEntity fileRef s =
     (if \<not> l0_initialized s then (Inl L0NotInitialized, s)
      else if \<not> jsonStringifies fullEntity then (Inl NotSerialisable, s)
      else
        (let lightweightRef =
               \<lparr> entityName = nm,
                 fileReference = fileRef,
                 summary = generateSummary fullEntity,
                 priority = calculatePriority fullEntity,
                 refSize = calculateSize sizeBytes,
                 evidenceQuality = extractEvidenceQuality fullEntity,
                 createdAt = epochMs now,
                 lastAccessed = epochMs now,
                 accessCount = 0,
                 transferredAt = Some (epochMs now) \<rparr>
         in (Inr lightweightRef,
             s\<lparr> lightweightReferences := AList.update nm lightweightRef (lightweightReferences s),
                entitiesTransferred := entitiesTransferred s + 1 \<rparr>)))"

definition referencesCount :: "L0Bootstrap \<Rightarrow> nat" where
  "referencesCount s = length (lightweightReferences s)"

section \<open>L1Repository: the backing store client\<close>

record connectionMetrics =
  totalRequests :: nat
  successfulRequests :: nat
  failedRequests :: nat
  averageResponseTime :: real
  lastConnectionTime :: "int option"

record L1Repository =
  basePath :: string
  compression :: string
  connected :: bool
  entityCache :: "string \<rightharpoonup> entity"
  metrics :: connectionMetrics

text \<open>
  The constructor. \<open>config.basePath || 'cortex/entities'\<close> is followed by the spread
  \<open>...config\<close>, so a \<open>basePath\<close> key present in the configuration wins, whatever
  its value. For \<open>compression\<close> the model takes the default, \<open>'gzip'\<close>.
\<close>

definition L1Repository_new :: "string option \<Rightarrow> L1Repository" where
  "L1Repository_new cfgBasePath =
     \<lparr> basePath = (case cfgBasePath of None \<Rightarrow> ''cortex/entities'' | Some b \<Rightarrow> b),
       compression = ''gzip'',
       connected = False,
       entityCache = Map.empty,
       metrics = \<lparr> totalRequests = 0, successfulRequests = 0, failedRequests = 0,
                   averageResponseTime = 0, lastConnectionTime = None \<rparr> \<rparr>"

text \<open>
  \<open>connect\<close>: the three steps it awaits (a simulated access check, setting the schema,
  setting the repository metadata) do not throw. \<open>connectionTime\<close> is the measured
  difference of two clock reads.
\<close>

definition connect :: "instant \<Rightarrow> int \<Rightarrow> L1Repository \<Rightarrow> (error + int) \<times> L1Repository" where
  "connect now connectionTime s =
     (Inr connectionTime,
      s\<lparr> metrics := (metrics s)\<lparr> lastConnectionTime := Some (epochMs now),
                                  averageResponseTime := real_of_int connectionTime \<rparr>,
         connected := True \<rparr>)"

definition updateMetrics :: "int \<Rightarrow> bool \<Rightarrow> connectionMetrics \<Rightarrow> connectionMetrics" where
  "updateMetrics responseTime success m =
     (let m1 = (if success then m\<lparr> successfulRequests := successfulRequests m + 1 \<rparr>
                else m\<lparr> failedRequests := failedRequests m + 1 \<rparr>);
          total = successfulRequests m1 + failedRequests m1
      in m1\<lparr> averageResponseTime :=
               (averageResponseTime m1 * (real total - 1) + real_of_int responseTime)
                 / real total \<rparr>)"

definition validateEntitySchema :: "entity \<Rightarrow> error + bool" where
  "validateEntitySchema e =
     (if name e = None \<or> name e = Some [] then Inl InvalidName
      else if entityType e = None \<or> entityType e = Some [] then Inl InvalidEntityType
      else if observations e = None then Inl InvalidObservations
      else Inr True)"

text \<open>\<open>s.split(c)\<close> for a one-character separator; the result is never empty.\<close>

fun splitOn :: "char \<Rightarrow> string \<Rightarrow> string list" where
  "splitOn c [] = [[]]"
| "splitOn c (x # xs) =
     (if x = c then [] # splitOn c xs
      else (case splitOn c xs of [] \<Rightarrow> [[x]] | seg # segs \<Rightarrow> (x # seg) # segs))"

text \<open>\<open>s.replace(pat, rep)\<close> with a string pattern: the first occurrence only.\<close>

fun replaceFirst :: "string \<Rightarrow> string \<Rightarrow> string \<Rightarrow> string" where
  "replaceFirst pat rep [] = (if pat = [] then rep else [])"
| "replaceFirst pat rep (x # xs) =
     (if prefix pat (x # xs) then rep @ drop (length pat) (x # xs)
      else x # replaceFirst pat rep xs)"

text \<open>
  The simulated load: whatever the locator, a body is made up from it. The only clock
  value that reaches the body is the ISO text.
\<close>

definition loadEntityFromRepository :: "instant \<Rightarrow> string \<Rightarrow> entity" where
  "loadEntityFromRepository now fileRef =
     \<lparr> name = Some (replaceFirst ''.json'' [] (last (splitOn (CHR ''/'') fileRef))),
       entityType = Some ''loaded_entity'',
       observations = Some [''Entity loaded from L1 Repository: '' @ fileRef,
                            ''Timestamp: '' @ isoString now,
                            ''Evidence Quality: T2''],
       metadata = [(''fileReference'', JString fileRef),
                   (''loadedAt'', JString (isoString now)),
                   (''source'', JString ''L1Repository'')] \<rparr>"

text \<open>
  \<open>getEntity\<close> of the repository. \<open>responseTime\<close> is the measured latency
  \<open>Date.now() - startTime\<close>. A locator found in \<open>entityCache\<close> returns from inside the
  \<open>try\<close> block before \<open>updateMetrics\<close> is reached.
\<close>

definition L1_getEntity ::
  "instant \<Rightarrow> int \<Rightarrow> string \<Rightarrow> L1Repository \<Rightarrow> (error + entity) \<times> L1Repository" where
  "L1_getEntity now responseTime fileRef s =
     (if \<not> connected s then (Inl L1NotConnected, s)
      else
        (let s1 = s\<lparr> metrics := (metrics s)\<lparr> totalRequests := totalRequests (metrics s) + 1 \<rparr> \<rparr>
         in case entityCache s1 fileRef of
              Some cached \<Rightarrow> (Inr cached, s1)
            | None \<Rightarrow>
                (let e = loadEntityFromRepository now fileRef
                 in case validateEntitySchema e of
                      Inl err \<Rightarrow>
                        (Inl (FailedToLoad err),
                         s1\<lparr> metrics := updateMetrics responseTime False (metrics s1) \<rparr>)
                    | Inr ok \<Rightarrow>
                        (Inr e,
                         s1\<lparr> entityCache := (entityCache s1)(fileRef \<mapsto> e),
                             metrics := updateMetrics responseTime True (metrics s1) \<rparr>))))"

text \<open>
  \<open>generateFileReference\<close>. On byte strings \<open>toLowerCase\<close> changes the letters A to Z
  only, as far as the character class \<open>[a-z0-9_]\<close> can tell afterwards.
\<close>

definition toLowerChar :: "char \<Rightarrow> char" where
  "toLowerChar c =
     (case map_of (zip ''ABCDEFGHIJKLMNOPQRSTUVWXYZ'' ''abcdefghijklmnopqrstuvwxyz'') c of
        Some l \<Rightarrow> l
      | None \<Rightarrow> c)"

definition safeChar :: "char \<Rightarrow> bool" where
  "safeChar c = (c \<in> set ''abcdefghijklmnopqrstuvwxyz0123456789_'')"

fun collapseUnderscores :: "string \<Rightarrow> string" where
  "collapseUnderscores (a # b # rest) =
     (if a = CHR ''_'' \<and> b = CHR ''_'' then collapseUnderscores (b # rest)
      else a # collapseUnderscores (b # rest))"
| "collapseUnderscores s = s"

definition stripUnderscores :: "string \<Rightarrow> string" where
  "stripUnderscores s =
     (let s1 = (case s of c # rest \<Rightarrow> (if c = CHR ''_'' then rest else s) | [] \<Rightarrow> [])
      in if s1 \<noteq> [] \<and> last s1 = CHR ''_'' then butlast s1 else s1)"

definition generateFileReference :: "string \<Rightarrow> string \<Rightarrow> string" where
  "generateFileReference base nm =
     (let sanitizedName =
            stripUnderscores
              (collapseUnderscores
                 (map (\<lambda>c. if safeChar c then c else CHR ''_'') (map toLowerChar nm)))
      in base @ ''/'' @ sanitizedName @ ''.json'')"

text \<open>
  \<open>processEntityForStorage\<close>: a copy of the entity whose metadata has three keys set.
  The object spread keeps the place of a key that is already there and appends a new
  one, as \<open>AList.update\<close> does.
\<close>

definition processEntityForStorage :: "instant \<Rightarrow> L1Repository \<Rightarrow> entity \<Rightarrow> entity" where
  "processEntityForStorage now s entityData =
     entityData\<lparr> metadata :=
       AList.update ''compression'' (JString (compression s))
         (AList.update ''version'' (JString ''3.0.0'')
            (AList.update ''storedAt'' (JString (isoString now)) (metadata entityData))) \<rparr>"

text \<open>
  \<open>storeEntity\<close>. The processed copy goes to the simulated store, which resolves and
  keeps nothing; \<open>entityCache\<close> receives the entity as given, and
  \<open>updateMetrics(responseTime, true)\<close> follows. Only then is the returned record
  built, still inside the \<open>try\<close> block: its \<open>size\<close> is
  \<open>JSON.stringify(processedData).length\<close> and its \<open>compressionRatio\<close> serialises the
  entity and the processed copy again. When one of these throws, the \<open>catch\<close> block
  runs \<open>updateMetrics(responseTime, false)\<close> as well and the call fails. Of the
  returned record the locator is kept.
\<close>

definition storeEntity ::
  "instant \<Rightarrow> int \<Rightarrow> string \<Rightarrow> entity \<Rightarrow> L1Repository \<Rightarrow> (error + string) \<times> L1Repository" where
  "storeEntity now responseTime nm entityData s =
     (if \<not> connected s then (Inl L1NotConnected, s)
      else
        (let s1 = s\<lparr> metrics := (metrics s)\<lparr> totalRequests := totalRequests (metrics s) + 1 \<rparr> \<rparr>;
             fileRef = generateFileReference (basePath s1) nm
         in case validateEntitySchema entityData of
              Inl err \<Rightarrow>
                (Inl (FailedToStore err),
                 s1\<lparr> metrics := updateMetrics responseTime False (metrics s1) \<rparr>)
            | Inr ok \<Rightarrow>
                (let processedData = processEntityForStorage now s1 entityData;
                     s2 = s1\<lparr> entityCache := (entityCache s1)(fileRef \<mapsto> entityData),
                              metrics := updateMetrics responseTime True (metrics s1) \<rparr>
                 in if jsonStringifies processedData \<and> jsonStringifies entityData
                    then (Inr fileRef, s2)
                    else (Inl (FailedToStore NotSerialisable),
                          s2\<lparr> metrics := updateMetrics responseTime False (metrics s2) \<rparr>))))"

section \<open>LRUCache: the bounded cache\<close>

text \<open>
  Modelled from the spec: the class \<open>LRUCache\<close> (required from \<open>../cache/LRUCache\<close> by
  \<open>CortexManager\<close>) is not among the source files. The specification gives it a fixed
  capacity set at construction; \<open>get\<close> returns the value or a miss and on a hit promotes
  the key to most recently used; \<open>set\<close> inserts or overwrites and promotes, and when the
  insertion pushes the size above the capacity it evicts the least recently used entry;
  \<open>has\<close> tests membership without promotion. The entries are kept in recency order,
  least recently used first, so there are no ties to break.
\<close>

record 'v LRUCache =
  capacity :: nat
  entries :: "(string \<times> 'v) list"

definition LRUCache_new :: "nat \<Rightarrow> 'v LRUCache" where
  "LRUCache_new c = \<lparr> capacity = c, entries = [] \<rparr>"

definition lru_has :: "'v LRUCache \<Rightarrow> string \<Rightarrow> bool" where
  "lru_has c k = (map_of (entries c) k \<noteq> None)"

definition lru_get :: "'v LRUCache \<Rightarrow> string \<Rightarrow> 'v option \<times> 'v LRUCache" where
  "lru_get c k =
     (case map_of (entries c) k of
        None \<Rightarrow> (None, c)
      | Some v \<Rightarrow> (Some v, c\<lparr> entries := filter (\<lambda>p. fst p \<noteq> k) (entries c) @ [(k, v)] \<rparr>))"

definition lru_set :: "'v LRUCache \<Rightarrow> string \<Rightarrow> 'v \<Rightarrow> 'v LRUCache" where
  "lru_set c k v =
     (let es = filter (\<lambda>p. fst p \<noteq> k) (entries c) @ [(k, v)]
      in c\<lparr> entries := (if length es > capacity c then tl es else es) \<rparr>)"

definition lru_size :: "'v LRUCache \<Rightarrow> nat" where
  "lru_size c = length (entries c)"

datatype 'v lru_op = LruGet string | LruSet string 'v | LruHas string

fun lru_apply :: "'v lru_op \<Rightarrow> 'v LRUCache \<Rightarrow> 'v LRUCache" where
  "lru_apply (LruGet k) c = snd (lru_get c k)"
| "lru_apply (LruSet k v) c = lru_set c k v"
| "lru_apply (LruHas k) c = c"

definition lru_run :: "'v lru_op list \<Rightarrow> 'v LRUCache \<Rightarrow> 'v LRUCache" where
  "lru_run ops c = fold lru_apply ops c"

definition lru_ok :: "'v LRUCache \<Rightarrow> bool" where
  "lru_ok c = (distinct (map fst (entries c)) \<and> length (entries c) \<le> capacity c)"

section \<open>HealthMonitor\<close>

text \<open>
  Modelled from the spec: the class \<open>HealthMonitor\<close> (required from
  \<open>../utils/HealthMonitor\<close>) is not among the source files. The specification has the
  orchestrator increment a cache-hit counter and a cache-miss counter; the model keeps
  these two counters.
\<close>

record HealthMonitor =
  cacheHits :: nat
  cacheMisses :: nat

definition recordCacheHit :: "HealthMonitor \<Rightarrow> HealthMonitor" where
  "recordCacheHit h = h\<lparr> cacheHits := cacheHits h + 1 \<rparr>"

definition recordCacheMiss :: "HealthMonitor \<Rightarrow> HealthMonitor" where
  "recordCacheMiss h = h\<lparr> cacheMisses := cacheMisses h + 1 \<rparr>"

section \<open>CortexManager: the orchestrator\<close>

text \<open>
  The state of one \<open>CortexManager\<close>. The \<open>performance\<close> figures (floating-point
  reporting values) are not modelled.
\<close>

record CortexManager =
  l0Bootstrap :: L0Bootstrap
  l1Repository :: L1Repository
  cache :: "entity LRUCache"
  healthMonitor :: HealthMonitor
  initialized :: bool

text \<open>
  The constructor. \<open>config.cacheSize || 100\<close> is followed by the spread \<open>...config\<close>,
  so a \<open>cacheSize\<close> key present in the configuration wins, zero included.
\<close>

definition CortexManager_new :: "nat option \<Rightarrow> string option \<Rightarrow> CortexManager" where
  "CortexManager_new cfgCacheSize cfgBasePath =
     \<lparr> l0Bootstrap = L0Bootstrap_new,
       l1Repository = L1Repository_new cfgBasePath,
       cache = LRUCache_new (case cfgCacheSize of None \<Rightarrow> 100 | Some n \<Rightarrow> n),
       healthMonitor = \<lparr> cacheHits = 0, cacheMisses = 0 \<rparr>,
       initialized = False \<rparr>"

text \<open>
  \<open>initialize\<close> of the manager. Phases 1 and 2 are the two initialisations above.
  Modelled from the spec: phases 3 and 4 call \<open>EntityManager.initialize\<close> and
  \<open>HealthMonitor.start\<close>, which are not among the source files and which the
  specification places outside the core; \<open>collaboratorsStart\<close> tells whether they
  returned, and they leave the state modelled here alone. A failure in any phase is
  rethrown and \<open>initialized\<close> stays as it was.
\<close>

definition initialize ::
  "instant \<Rightarrow> int \<Rightarrow> bool \<Rightarrow> CortexManager \<Rightarrow> (error + unit) \<times> CortexManager" where
  "initialize now connectionTime collaboratorsStart s =
     (case L0_initialize now (l0Bootstrap s) of
        (Inl err, l0') \<Rightarrow> (Inl (InitializationFailed err), s\<lparr> l0Bootstrap := l0' \<rparr>)
      | (Inr loaded, l0') \<Rightarrow>
          (case connect now connectionTime (l1Repository s) of
             (Inl err, l1') \<Rightarrow>
               (Inl (InitializationFailed err), s\<lparr> l0Bootstrap := l0', l1Repository := l1' \<rparr>)
           | (Inr t, l1') \<Rightarrow>
               (if \<not> collaboratorsStart
                then (Inl (InitializationFailed CollaboratorFailed),
                      s\<lparr> l0Bootstrap := l0', l1Repository := l1' \<rparr>)
                else (Inr (),
                      s\<lparr> l0Bootstrap := l0', l1Repository := l1', initialized := True \<rparr>))))"

definition cacheKey :: "string \<Rightarrow> string" where
  "cacheKey nm = ''entity:'' @ nm"

text \<open>
  \<open>getEntity\<close> of the manager: the initialisation guard, the catalog lookup, the cache
  probe with \<open>has\<close> followed by \<open>get\<close>, and on a miss the repository's \<open>getEntity\<close>,
  whose error is not caught here. The source returns whatever \<open>get\<close> gives after
  \<open>has\<close> held; a miss of \<open>get\<close> at that point does not occur (\<open>has\<close> and \<open>get\<close> read
  the same entries), and the model fills that branch with the not-found error.
\<close>

definition getEntity ::
  "instant \<Rightarrow> int \<Rightarrow> string \<Rightarrow> CortexManager \<Rightarrow> (error + entity) \<times> CortexManager" where
  "getEntity now responseTime nm s =
     (if \<not> initialized s then (Inl CortexNotInitialized, s)
      else
        (case getLightweightReference now nm (l0Bootstrap s) of
           (Inl err, l0') \<Rightarrow> (Inl err, s\<lparr> l0Bootstrap := l0' \<rparr>)
         | (Inr None, l0') \<Rightarrow> (Inl (EntityNotFound nm), s\<lparr> l0Bootstrap := l0' \<rparr>)
         | (Inr (Some lightweightRef), l0') \<Rightarrow>
             (let s1 = s\<lparr> l0Bootstrap := l0' \<rparr>
              in if lru_has (cache s1) (cacheKey nm)
                 then
                   (let s2 = s1\<lparr> healthMonitor := recordCacheHit (healthMonitor s1) \<rparr>
                    in case lru_get (cache s2) (cacheKey nm) of
                         (Some v, c') \<Rightarrow> (Inr v, s2\<lparr> cache := c' \<rparr>)
                       | (None, c') \<Rightarrow> (Inl (EntityNotFound nm), s2\<lparr> cache := c' \<rparr>))
                 else
                   (case L1_getEntity now responseTime (fileReference lightweightRef)
                           (l1Repository s1) of
                      (Inl err, l1') \<Rightarrow> (Inl err, s1\<lparr> l1Repository := l1' \<rparr>)
                    | (Inr fullEntity, l1') \<Rightarrow>
                        (Inr fullEntity,
                         s1\<lparr> l1Repository := l1',
                             cache := lru_set (cache s1) (cacheKey nm) fullEntity,
                             healthMonitor := recordCacheMiss (healthMonitor s1) \<rparr>)))))"

text \<open>
  Modelled from the spec: the write path of the orchestrator (\<open>putEntity\<close>) is not
  among the source files; \<open>CortexManager\<close> has no writing method. The specification
  has it call the backing store client's persist (\<open>storeEntity\<close> above); on success call
  the catalog's put with the returned locator (\<open>createLightweightReference\<close> above), then
  insert the full entity into the bounded cache under the key the read path uses; on
  failure the error is propagated and the catalog and the cache are not touched.
  \<open>sizeBytes\<close> is the serialised length of the entity, which the catalog renders.
\<close>

definition putEntity ::
  "instant \<Rightarrow> int \<Rightarrow> nat \<Rightarrow> string \<Rightarrow> entity \<Rightarrow> CortexManager
     \<Rightarrow> (error + string) \<times> CortexManager" where
  "putEntity now responseTime sizeBytes nm e s =
     (case storeEntity now responseTime nm e (l1Repository s) of
        (Inl err, l1') \<Rightarrow> (Inl err, s\<lparr> l1Repository := l1' \<rparr>)
      | (Inr locator, l1') \<Rightarrow>
          (case createLightweightReference now sizeBytes nm e locator (l0Bootstrap s) of
             (Inl err, l0') \<Rightarrow> (Inl err, s\<lparr> l1Repository := l1', l0Bootstrap := l0' \<rparr>)
           | (Inr r, l0') \<Rightarrow>
               (Inr locator,
                s\<lparr> l1Repository := l1',
                    l0Bootstrap := l0',
                    cache := lru_set (cache s) (cacheKey nm) e \<rparr>)))"

section \<open>Runs of calls and the notions the properties use\<close>

text \<open>A tier marker occurs somewhere in the observation.\<close>

definition hasTierMarker :: "string \<Rightarrow> bool" where
  "hasTierMarker obs =
     (str_includes obs ''T1'' \<or> str_includes obs ''T2'' \<or> str_includes obs ''T3'')"

text \<open>Inserting a list of key and value pairs into the bounded cache, in order.\<close>

definition insertAll :: "(string \<times> 'v) list \<Rightarrow> 'v LRUCache \<Rightarrow> 'v LRUCache" where
  "insertAll kvs c = lru_run (map (\<lambda>(k, v). LruSet k v) kvs) c"

text \<open>
  The calls a user of the repository client can make, each with the clock reading and
  the latency measured during it.
\<close>

datatype l1_call =
    CallConnect instant int
  | CallGet instant int string
  | CallStore instant int string entity

fun l1_step :: "l1_call \<Rightarrow> L1Repository \<Rightarrow> L1Repository" where
  "l1_step (CallConnect now t) s = snd (connect now t s)"
| "l1_step (CallGet now t fileRef) s = snd (L1_getEntity now t fileRef s)"
| "l1_step (CallStore now t nm e) s = snd (storeEntity now t nm e s)"

definition l1_run :: "l1_call list \<Rightarrow> L1Repository \<Rightarrow> L1Repository" where
  "l1_run calls s = fold l1_step calls s"

text \<open>A fetch answered from the client's own per-locator cache.\<close>

fun servedFromCache :: "l1_call \<Rightarrow> L1Repository \<Rightarrow> bool" where
  "servedFromCache (CallGet now t fileRef) s = (connected s \<and> entityCache s fileRef \<noteq> None)"
| "servedFromCache (CallConnect now t) s = False"
| "servedFromCache (CallStore now t nm e) s = False"

fun servedCount :: "l1_call list \<Rightarrow> L1Repository \<Rightarrow> nat" where
  "servedCount [] s = 0"
| "servedCount (c # cs) s =
     (if servedFromCache c s then 1 else 0) + servedCount cs (l1_step c s)"

text \<open>
  A store, on a connected client, of an entity that passes validation and then fails to
  serialise when the returned record is built: the request that runs \<open>updateMetrics\<close>
  twice. (The processed copy serialises whenever the entity does, so the entity
  decides.)
\<close>

fun countedTwice :: "l1_call \<Rightarrow> L1Repository \<Rightarrow> bool" where
  "countedTwice (CallStore now t nm e) s =
     (connected s \<and> validateEntitySchema e = Inr True \<and> \<not> jsonStringifies e)"
| "countedTwice (CallGet now t fileRef) s = False"
| "countedTwice (CallConnect now t) s = False"

fun twiceCount :: "l1_call list \<Rightarrow> L1Repository \<Rightarrow> nat" where
  "twiceCount [] s = 0"
| "twiceCount (c # cs) s =
     (if countedTwice c s then 1 else 0) + twiceCount cs (l1_step c s)"

text \<open>
  A request that is counted once, as a success or as a failure: a fetch on a connected
  client that the per-locator cache does not answer, a store that validation rejects,
  and a store of an entity that serialises.
\<close>

fun countedOnce :: "l1_call \<Rightarrow> L1Repository \<Rightarrow> bool" where
  "countedOnce (CallConnect now t) s = False"
| "countedOnce (CallGet now t fileRef) s = (connected s \<and> entityCache s fileRef = None)"
| "countedOnce (CallStore now t nm e) s =
     (connected s \<and> (validateEntitySchema e \<noteq> Inr True \<or> jsonStringifies e))"

fun latency :: "l1_call \<Rightarrow> int" where
  "latency (CallConnect now t) = t"
| "latency (CallGet now t fileRef) = t"
| "latency (CallStore now t nm e) = t"

definition completedRequests :: "connectionMetrics \<Rightarrow> nat" where
  "completedRequests m = successfulRequests m + failedRequests m"

text \<open>The calls a user of the orchestrator can make after initialisation.\<close>

datatype call =
    Get instant int string
  | Put instant int nat string entity

fun step :: "call \<Rightarrow> CortexManager \<Rightarrow> CortexManager" where
  "step (Get now t nm) s = snd (getEntity now t nm s)"
| "step (Put now t sizeBytes nm e) s = snd (putEntity now t sizeBytes nm e s)"

definition cortex_run :: "call list \<Rightarrow> CortexManager \<Rightarrow> CortexManager" where
  "cortex_run calls s = fold step calls s"

fun writesName :: "string \<Rightarrow> call \<Rightarrow> bool" where
  "writesName nm (Get now t n) = False"
| "writesName nm (Put now t sizeBytes n e) = (n = nm)"

text \<open>The key is in the bounded cache before the calls and after each of them.\<close>

fun retained :: "string \<Rightarrow> call list \<Rightarrow> CortexManager \<Rightarrow> bool" where
  "retained k [] s = lru_has (cache s) k"
| "retained k (c # cs) s = (lru_has (cache s) k \<and> retained k cs (step c s))"

text \<open>
  The state in which a read of \<open>nm\<close> is answered from the bounded cache with \<open>e\<close>:
  the manager is initialised, the catalog knows the name, and the cache, which has one
  entry for each key and is within its capacity, maps the key of the name to \<open>e\<close>.
\<close>

definition holds :: "string \<Rightarrow> entity \<Rightarrow> CortexManager \<Rightarrow> bool" where
  "holds nm e s \<longleftrightarrow>
     initialized s \<and> l0_initialized (l0Bootstrap s) \<and>
     map_of (lightweightReferences (l0Bootstrap s)) nm \<noteq> None \<and>
     lru_ok (cache s) \<and> map_of (entries (cache s)) (cacheKey nm) = Some e"

subsection \<open>Sample values\<close>

definition sampleClock :: instant where
  "sampleClock = \<lparr> epochMs = 1000, isoString = ''1970-01-01T00:00:01.000Z'' \<rparr>"

definition laterClock :: instant where
  "laterClock = \<lparr> epochMs = 5000, isoString = ''1970-01-01T00:00:05.000Z'' \<rparr>"

definition sampleEntity :: entity where
  "sampleEntity =
     \<lparr> name = Some ''Alpha'', entityType = Some ''Fact'',
       observations = Some [''o1''], metadata = [] \<rparr>"

text \<open>An entity that passes validation and whose metadata holds a \<open>BigInt\<close>.\<close>

definition bigintEntity :: entity where
  "bigintEntity =
     \<lparr> name = Some ''Big'', entityType = Some ''Fact'',
       observations = Some [''o1''], metadata = [(''n'', JBigInt 10)] \<rparr>"

definition otherEntity :: entity where
  "otherEntity =
     \<lparr> name = Some ''Beta'', entityType = Some ''Fact'',
       observations = Some [''T2 first'', ''T1 later''], metadata = [] \<rparr>"

text \<open>A manager with the default configuration, after a successful \<open>initialize\<close>.\<close>

definition readyManager :: CortexManager where
  "readyManager = snd (initialize sampleClock 5 True (CortexManager_new None None))"

text \<open>
  The same manager after the catalog was given, through its public
  \<open>createLightweightReference\<close>, a reference whose locator has an empty file stem.
\<close>

definition danglingManager :: CortexManager where
  "danglingManager =
     readyManager\<lparr> l0Bootstrap :=
       snd (createLightweightReference sampleClock 80 ''Ghost'' sampleEntity
              ''cortex/entities/.json'' (l0Bootstrap readyManager)) \<rparr>"

section \<open>Properties\<close>

subsection \<open>The bounded cache\<close>

lemma capacity_lru_set [simp]: "capacity (lru_set c k v) = capacity c"
  by (simp add: lru_set_def Let_def)

lemma capacity_lru_get [simp]: "capacity (snd (lru_get c k)) = capacity c"
  by (simp add: lru_get_def split: option.splits)

lemma keys_lru_set:
  "map fst (entries (lru_set c k v)) =
     (let ks = filter (\<lambda>x. x \<noteq> k) (map fst (entries c)) @ [k]
      in if length ks > capacity c then tl ks else ks)"
  by (simp add: lru_set_def Let_def filter_map comp_def map_tl)

lemma keys_lru_get:
  "map fst (entries (snd (lru_get c k))) =
     (if k \<in> set (map fst (entries c))
      then filter (\<lambda>x. x \<noteq> k) (map fst (entries c)) @ [k]
      else map fst (entries c))"
proof (cases "map_of (entries c) k")
  case None
  then have "k \<notin> fst ` set (entries c)" by (simp add: map_of_eq_None_iff)
  then show ?thesis by (simp add: lru_get_def None)
next
  case (Some v)
  then have "k \<in> fst ` set (entries c)" by (metis map_of_eq_None_iff option.distinct(1))
  then show ?thesis by (simp add: lru_get_def Some filter_map comp_def)
qed

lemma length_filter_neq_distinct:
  "distinct xs \<Longrightarrow> k \<in> set xs \<Longrightarrow> Suc (length (filter (\<lambda>x. x \<noteq> k) xs)) = length xs"
proof (induction xs)
  case Nil
  then show ?case by simp
next
  case (Cons a xs)
  show ?case
  proof (cases "a = k")
    case True
    with Cons.prems have "k \<notin> set xs" by simp
    then have "filter (\<lambda>x. x \<noteq> k) xs = xs" by (auto simp: filter_id_conv)
    with True show ?thesis by simp
  next
    case False
    with Cons show ?thesis by simp
  qed
qed

lemma lru_ok_keys:
  "lru_ok c \<longleftrightarrow> distinct (map fst (entries c)) \<and> length (map fst (entries c)) \<le> capacity c"
  by (simp add: lru_ok_def)

lemma lru_set_ok:
  assumes "lru_ok c" shows "lru_ok (lru_set c k v)"
proof -
  define ks where "ks = map fst (entries c)"
  define l where "l = filter (\<lambda>x. x \<noteq> k) ks @ [k]"
  have keys: "map fst (entries (lru_set c k v)) = (if length l > capacity c then tl l else l)"
    unfolding l_def ks_def by (simp only: keys_lru_set Let_def)
  have d: "distinct ks" and n: "length ks \<le> capacity c"
    using assms by (simp_all add: lru_ok_def ks_def)
  have dl: "distinct l" unfolding l_def using d by simp
  have "length (filter (\<lambda>x. x \<noteq> k) ks) \<le> length ks" by (rule length_filter_le)
  from this n have "length (filter (\<lambda>x. x \<noteq> k) ks) \<le> capacity c" by (rule le_trans)
  then have nl: "length l \<le> Suc (capacity c)" unfolding l_def by simp
  have 1: "distinct (if length l > capacity c then tl l else l)"
    using dl by (simp add: distinct_tl)
  have 2: "length (if length l > capacity c then tl l else l) \<le> capacity c"
    using nl by auto
  show ?thesis unfolding lru_ok_keys keys capacity_lru_set using 1 2 by (rule conjI)
qed

lemma lru_get_ok:
  assumes "lru_ok c" shows "lru_ok (snd (lru_get c k))"
proof -
  define ks where "ks = map fst (entries c)"
  have keys: "map fst (entries (snd (lru_get c k))) =
      (if k \<in> set ks then filter (\<lambda>x. x \<noteq> k) ks @ [k] else ks)"
    unfolding ks_def by (simp only: keys_lru_get)
  have d: "distinct ks" and n: "length ks \<le> capacity c"
    using assms by (simp_all add: lru_ok_def ks_def)
  have 1: "distinct (if k \<in> set ks then filter (\<lambda>x. x \<noteq> k) ks @ [k] else ks)"
    using d by simp
  have 2: "length (if k \<in> set ks then filter (\<lambda>x. x \<noteq> k) ks @ [k] else ks) \<le> capacity c"
    using n length_filter_neq_distinct[OF d, of k] by auto
  show ?thesis unfolding lru_ok_keys keys capacity_lru_get using 1 2 by (rule conjI)
qed

lemma lru_apply_ok: "lru_ok c \<Longrightarrow> lru_ok (lru_apply op c)"
  by (cases op) (simp_all add: lru_set_ok lru_get_ok)

lemma lru_run_ok: "lru_ok c \<Longrightarrow> lru_ok (lru_run ops c)"
  unfolding lru_run_def
  by (induction ops arbitrary: c) (simp_all add: lru_apply_ok)

lemma lru_new_ok: "lru_ok (LRUCache_new C)"
  by (simp add: lru_ok_def LRUCache_new_def)

lemma capacity_lru_run [simp]: "capacity (lru_run ops c) = capacity c"
  unfolding lru_run_def
proof (induction ops arbitrary: c)
  case Nil
  then show ?case by simp
next
  case (Cons op ops)
  show ?case by (cases op) (simp_all add: Cons.IH)
qed


lemma insertAll_snoc: "insertAll (kvs @ [(k, v)]) c = lru_set (insertAll kvs c) k v"
  by (simp add: insertAll_def lru_run_def)

lemma insertAll_Cons: "insertAll ((k, v) # kvs) c = insertAll kvs (lru_set c k v)"
  by (simp add: insertAll_def lru_run_def)

lemma insertAll_ok: "lru_ok c \<Longrightarrow> lru_ok (insertAll kvs c)"
  by (simp add: insertAll_def lru_run_ok)

lemma capacity_insertAll [simp]: "capacity (insertAll kvs c) = capacity c"
  by (simp add: insertAll_def)

lemma keys_insertAll_suffix:
  assumes "lru_ok c" "distinct (map fst kvs)" "length kvs \<le> capacity c"
  shows "\<exists>pre. map fst (entries (insertAll kvs c)) = pre @ map fst kvs"
  using assms
proof (induction kvs rule: rev_induct)
  case Nil
  then show ?case by simp
next
  case (snoc kv kvs)
  obtain k v where kv: "kv = (k, v)" by (cases kv)
  from snoc.prems have dk: "distinct (map fst kvs)" and knew: "k \<notin> set (map fst kvs)"
    and len: "Suc (length kvs) \<le> capacity c"
    by (auto simp: kv)
  from snoc.IH[OF snoc.prems(1) dk] len obtain pre
    where pre: "map fst (entries (insertAll kvs c)) = pre @ map fst kvs" by auto
  define K where "K = map fst kvs"
  define l where "l = filter (\<lambda>x. x \<noteq> k) (pre @ K) @ [k]"
  have fK: "filter (\<lambda>x. x \<noteq> k) K = K" using knew by (auto simp: K_def filter_id_conv)
  have l_eq: "l = filter (\<lambda>x. x \<noteq> k) pre @ (K @ [k])" by (simp add: l_def fK)
  have keys: "map fst (entries (insertAll (kvs @ [kv]) c)) =
      (if length l > capacity c then tl l else l)"
    unfolding kv insertAll_snoc l_def K_def pre[symmetric]
    by (simp only: keys_lru_set Let_def capacity_insertAll)
  have lenK: "length (K @ [k]) \<le> capacity c" using len by (simp add: K_def)
  show ?case
  proof (cases "length l > capacity c")
    case True
    with lenK have "filter (\<lambda>x. x \<noteq> k) pre \<noteq> []" by (auto simp: l_eq)
    then have "tl l = tl (filter (\<lambda>x. x \<noteq> k) pre) @ (K @ [k])" by (simp add: l_eq)
    with True keys show ?thesis by (simp add: K_def kv)
  next
    case False
    with keys l_eq show ?thesis by (simp add: K_def kv)
  qed
qed

lemma keys_insertAll_full:
  assumes "lru_ok c" "distinct (map fst kvs)" "length kvs = capacity c"
  shows "map fst (entries (insertAll kvs c)) = map fst kvs"
proof -
  from keys_insertAll_suffix[OF assms(1,2)] assms(3) obtain pre
    where pre: "map fst (entries (insertAll kvs c)) = pre @ map fst kvs" by auto
  have "length (map fst (entries (insertAll kvs c))) \<le> capacity c"
    using insertAll_ok[OF assms(1), of kvs] by (simp add: lru_ok_def)
  then have "length (pre @ map fst kvs) \<le> capacity c" by (simp only: pre)
  with assms(3) have "pre = []" by simp
  with pre show ?thesis by simp
qed

lemma lru_has_keys: "lru_has c k \<longleftrightarrow> k \<in> set (map fst (entries c))"
  by (simp add: lru_has_def map_of_eq_None_iff)

lemma first_key_evicted:
  assumes "lru_ok c" "distinct (map fst kvs)" "length kvs = Suc (capacity c)"
  shows "\<not> lru_has (insertAll kvs c) (fst (hd kvs))"
proof -
  from assms(3) obtain kv rest where kvs: "kvs = kv # rest" by (cases kvs) auto
  obtain k v where kv: "kv = (k, v)" by (cases kv)
  have ok1: "lru_ok (lru_set c k v)" by (rule lru_set_ok) (rule assms(1))
  have d: "distinct (map fst rest)" and k: "k \<notin> set (map fst rest)"
    using assms(2) by (auto simp: kvs kv)
  have len: "length rest = capacity (lru_set c k v)" using assms(3) by (simp add: kvs)
  have "map fst (entries (insertAll rest (lru_set c k v))) = map fst rest"
    by (rule keys_insertAll_full[OF ok1 d len])
  then show ?thesis
    unfolding kvs kv insertAll_Cons lru_has_keys using k by simp
qed

text \<open>
  Claim C3. The bounded cache never holds more than its capacity, whatever operations
  it has served since construction; and after inserting one more than its capacity of
  distinct keys in order, the first of them has been evicted: \<open>has\<close> is false for it and
  \<open>get\<close> misses.
\<close>

theorem bounded_cache_capacity_and_eviction:
  "lru_size (lru_run ops (LRUCache_new C)) \<le> C \<and>
   (distinct (map fst kvs) \<and> length kvs = Suc C \<longrightarrow>
      \<not> lru_has (insertAll kvs (lru_run ops (LRUCache_new C))) (fst (hd kvs)) \<and>
      fst (lru_get (insertAll kvs (lru_run ops (LRUCache_new C))) (fst (hd kvs))) = None)"
proof -
  have ok: "lru_ok (lru_run ops (LRUCache_new C))" by (rule lru_run_ok) (rule lru_new_ok)
  have cap: "capacity (lru_run ops (LRUCache_new C)) = C" by (simp add: LRUCache_new_def)
  from ok cap have 1: "lru_size (lru_run ops (LRUCache_new C)) \<le> C"
    by (simp add: lru_ok_def lru_size_def)
  have 2: "\<not> lru_has (insertAll kvs (lru_run ops (LRUCache_new C))) (fst (hd kvs))"
    if "distinct (map fst kvs)" "length kvs = Suc C"
    using first_key_evicted[OF ok that(1)] that(2) cap by simp
  have 3: "fst (lru_get c k) = None" if "\<not> lru_has c k" for c :: "'a LRUCache" and k
    using that by (simp add: lru_has_def lru_get_def)
  from 1 2 3 show ?thesis by blast
qed

theorem bounded_cache_capacity_and_eviction_witness:
  "distinct (map fst [(''a'', 1::nat), (''b'', 2), (''c'', 3)])
   \<and> length [(''a'', 1::nat), (''b'', 2), (''c'', 3)] = Suc 2
   \<and> lru_size (lru_run [LruSet ''z'' 0, LruGet ''z''] (LRUCache_new 2 :: nat LRUCache)) \<le> 2
   \<and> \<not> lru_has (insertAll [(''a'', 1::nat), (''b'', 2), (''c'', 3)]
              (lru_run [LruSet ''z'' 0, LruGet ''z''] (LRUCache_new 2))) ''a''
   \<and> fst (lru_get (insertAll [(''a'', 1::nat), (''b'', 2), (''c'', 3)]
              (lru_run [LruSet ''z'' 0, LruGet ''z''] (LRUCache_new 2))) ''a'') = None
   \<and> fst (lru_get (insertAll [(''a'', 1::nat), (''b'', 2), (''c'', 3)]
              (lru_run [LruSet ''z'' 0, LruGet ''z''] (LRUCache_new 2))) ''b'') = Some 2"
  using bounded_cache_capacity_and_eviction[of "[LruSet ''z'' 0, LruGet ''z'']" 2
          "[(''a'', 1::nat), (''b'', 2), (''c'', 3)]"]
  by (simp add: insertAll_def lru_run_def lru_set_def lru_get_def LRUCache_new_def Let_def)

subsection \<open>The request counters and the running average of the repository client\<close>

lemma updateMetrics_completed:
  "completedRequests (updateMetrics t ok m) = completedRequests m + 1"
  by (simp add: updateMetrics_def completedRequests_def Let_def)

lemma updateMetrics_total: "totalRequests (updateMetrics t ok m) = totalRequests m"
  by (simp add: updateMetrics_def Let_def)

lemma updateMetrics_average:
  "averageResponseTime (updateMetrics t ok m) =
     (averageResponseTime m * (real (completedRequests (updateMetrics t ok m)) - 1)
        + real_of_int t) / real (completedRequests (updateMetrics t ok m))"
  by (simp add: updateMetrics_def completedRequests_def Let_def)

lemma completedRequests_total_update [simp]:
  "completedRequests (m\<lparr> totalRequests := n \<rparr>) = completedRequests m"
  by (simp add: completedRequests_def)

text \<open>The processed copy serialises whenever the entity does.\<close>

lemma serialisable_update:
  "jsonSerialisable v \<Longrightarrow> list_all jsonSerialisable (map snd al) \<Longrightarrow>
     list_all jsonSerialisable (map snd (AList.update k v al))"
  by (induction al) auto

lemma processed_stringifies:
  "jsonStringifies e \<Longrightarrow> jsonStringifies (processEntityForStorage now s e)"
  by (simp add: jsonStringifies_def processEntityForStorage_def serialisable_update)

lemma metrics_after_store:
  assumes "connected s"
  shows "metrics (snd (storeEntity now t nm e s)) =
     (let m1 = (metrics s)\<lparr> totalRequests := totalRequests (metrics s) + 1 \<rparr>
      in if validateEntitySchema e \<noteq> Inr True then updateMetrics t False m1
         else if jsonStringifies e then updateMetrics t True m1
         else updateMetrics t False (updateMetrics t True m1))"
proof (cases "validateEntitySchema e")
  case (Inl err)
  with assms show ?thesis by (simp add: storeEntity_def Let_def)
next
  case (Inr ok)
  then have v: "validateEntitySchema e = Inr True"
    by (auto simp: validateEntitySchema_def split: if_splits)
  show ?thesis
  proof (cases "jsonStringifies e")
    case True
    with assms v processed_stringifies[OF True] show ?thesis
      by (simp add: storeEntity_def Let_def)
  next
    case False
    with assms v show ?thesis by (simp add: storeEntity_def Let_def)
  qed
qed

lemma metrics_after_fetch:
  assumes "connected s"
  shows "metrics (snd (L1_getEntity now t fileRef s)) =
     (let m1 = (metrics s)\<lparr> totalRequests := totalRequests (metrics s) + 1 \<rparr>
      in if entityCache s fileRef \<noteq> None then m1
         else updateMetrics t
                (validateEntitySchema (loadEntityFromRepository now fileRef) = Inr True) m1)"
proof (cases "entityCache s fileRef")
  case None
  show ?thesis
  proof (cases "validateEntitySchema (loadEntityFromRepository now fileRef)")
    case (Inl err)
    with assms None show ?thesis by (simp add: L1_getEntity_def Let_def)
  next
    case (Inr ok)
    then have "validateEntitySchema (loadEntityFromRepository now fileRef) = Inr True"
      by (auto simp: validateEntitySchema_def split: if_splits)
    with assms None show ?thesis by (simp add: L1_getEntity_def Let_def)
  qed
next
  case (Some cached)
  with assms show ?thesis by (simp add: L1_getEntity_def Let_def)
qed

text \<open>
  The balance of the three counters over one call and over a run: a fetch answered from
  the per-locator cache adds to the total alone, and a store counted twice adds two to
  the sum of successes and failures.
\<close>

lemma l1_step_balance:
  "totalRequests (metrics (l1_step c s)) + completedRequests (metrics s)
       + (if countedTwice c s then 1 else 0) =
     totalRequests (metrics s) + completedRequests (metrics (l1_step c s))
       + (if servedFromCache c s then 1 else 0)"
proof (cases c)
  case (CallConnect now t)
  then show ?thesis by (simp add: connect_def completedRequests_def)
next
  case (CallGet now t fileRef)
  show ?thesis
  proof (cases "connected s")
    case True
    show ?thesis
      unfolding CallGet l1_step.simps metrics_after_fetch[OF True]
      using True by (simp add: Let_def updateMetrics_completed updateMetrics_total)
  next
    case False
    then show ?thesis by (simp add: CallGet L1_getEntity_def)
  qed
next
  case (CallStore now t nm e)
  show ?thesis
  proof (cases "connected s")
    case True
    show ?thesis
      unfolding CallStore l1_step.simps metrics_after_store[OF True]
      using True by (simp add: Let_def updateMetrics_completed updateMetrics_total)
  next
    case False
    then show ?thesis by (simp add: CallStore storeEntity_def)
  qed
qed

lemma l1_run_balance:
  "totalRequests (metrics (l1_run cs s)) + completedRequests (metrics s) + twiceCount cs s =
     totalRequests (metrics s) + completedRequests (metrics (l1_run cs s)) + servedCount cs s"
proof (induction cs arbitrary: s)
  case Nil
  then show ?case by (simp add: l1_run_def)
next
  case (Cons c cs)
  have run: "l1_run (c # cs) s = l1_run cs (l1_step c s)" by (simp add: l1_run_def)
  from Cons.IH[of "l1_step c s"] l1_step_balance[of c s]
  show ?case unfolding run servedCount.simps twiceCount.simps by (simp split: if_splits)
qed

text \<open>
  From a newly constructed client: the total, plus the stores counted twice, is the sum
  of successes and failures plus the fetches answered from the per-locator cache. In a
  run without a store counted twice the total is therefore never below that sum.
\<close>

lemma request_counters_balance:
  "totalRequests (metrics (l1_run calls (L1Repository_new b)))
       + twiceCount calls (L1Repository_new b) =
     successfulRequests (metrics (l1_run calls (L1Repository_new b)))
       + failedRequests (metrics (l1_run calls (L1Repository_new b)))
       + servedCount calls (L1Repository_new b)"
  using l1_run_balance[of calls "L1Repository_new b"]
  by (simp add: completedRequests_def L1Repository_new_def)

text \<open>
  Claim C9 (the source departs from it). The claim is that the total request counter is
  never below the sum of the success and failure counters. On a connected new client,
  one store of an entity that passes validation and holds a \<open>BigInt\<close> in its metadata
  fails, and leaves the total at 1 with one success and one failure counted.
\<close>

theorem unserialisable_store_counted_twice:
  "validateEntitySchema bigintEntity = Inr True
   \<and> fst (storeEntity laterClock 30 ''Big'' bigintEntity
            (l1_run [CallConnect sampleClock 5] (L1Repository_new None)))
       = Inl (FailedToStore NotSerialisable)
   \<and> totalRequests (metrics (l1_run
        [CallConnect sampleClock 5, CallStore laterClock 30 ''Big'' bigintEntity]
        (L1Repository_new None))) = 1
   \<and> successfulRequests (metrics (l1_run
        [CallConnect sampleClock 5, CallStore laterClock 30 ''Big'' bigintEntity]
        (L1Repository_new None))) = 1
   \<and> failedRequests (metrics (l1_run
        [CallConnect sampleClock 5, CallStore laterClock 30 ''Big'' bigintEntity]
        (L1Repository_new None))) = 1
   \<and> \<not> (successfulRequests (metrics (l1_run
             [CallConnect sampleClock 5, CallStore laterClock 30 ''Big'' bigintEntity]
             (L1Repository_new None)))
          + failedRequests (metrics (l1_run
             [CallConnect sampleClock 5, CallStore laterClock 30 ''Big'' bigintEntity]
             (L1Repository_new None)))
          \<le> totalRequests (metrics (l1_run
             [CallConnect sampleClock 5, CallStore laterClock 30 ''Big'' bigintEntity]
             (L1Repository_new None))))"
  by (simp add: l1_run_def connect_def L1Repository_new_def storeEntity_def Let_def
      validateEntitySchema_def bigintEntity_def updateMetrics_def jsonStringifies_def
      processEntityForStorage_def)

lemma metrics_of_countedOnce:
  assumes "countedOnce c s"
  shows "\<exists>ok. metrics (l1_step c s) =
           updateMetrics (latency c) ok
             ((metrics s)\<lparr> totalRequests := totalRequests (metrics s) + 1 \<rparr>)"
proof (cases c)
  case (CallConnect now t)
  with assms show ?thesis by simp
next
  case (CallGet now t fileRef)
  with assms have c: "connected s" and n: "entityCache s fileRef = None" by simp_all
  show ?thesis
    unfolding CallGet l1_step.simps latency.simps metrics_after_fetch[OF c]
    using n by (simp add: Let_def) blast
next
  case (CallStore now t nm e)
  with assms have c: "connected s"
    and v: "validateEntitySchema e \<noteq> Inr True \<or> jsonStringifies e" by auto
  show ?thesis
    unfolding CallStore l1_step.simps latency.simps metrics_after_store[OF c]
    using v by (auto simp: Let_def)
qed

lemma metrics_of_served:
  assumes "servedFromCache c s"
  shows "metrics (l1_step c s) = (metrics s)\<lparr> totalRequests := totalRequests (metrics s) + 1 \<rparr>"
proof (cases c)
  case (CallConnect now t)
  with assms show ?thesis by simp
next
  case (CallGet now t fileRef)
  with assms have c: "connected s" and n: "entityCache s fileRef \<noteq> None" by simp_all
  show ?thesis
    unfolding CallGet l1_step.simps metrics_after_fetch[OF c]
    using n by (simp add: Let_def)
next
  case (CallStore now t nm e)
  with assms show ?thesis by simp
qed

theorem cache_served_fetch_leaves_average_counterexample:
  "fst (L1_getEntity laterClock 2 ''cortex/entities/alpha.json''
          (l1_run [CallConnect sampleClock 5, CallStore sampleClock 30 ''Alpha'' sampleEntity]
             (L1Repository_new None))) = Inr sampleEntity
   \<and> averageResponseTime (metrics (l1_run
        [CallConnect sampleClock 5, CallStore sampleClock 30 ''Alpha'' sampleEntity]
        (L1Repository_new None))) = 30
   \<and> averageResponseTime (metrics (l1_run
        [CallConnect sampleClock 5, CallStore sampleClock 30 ''Alpha'' sampleEntity,
         CallGet laterClock 2 ''cortex/entities/alpha.json'']
        (L1Repository_new None))) = 30
   \<and> totalRequests (metrics (l1_run
        [CallConnect sampleClock 5, CallStore sampleClock 30 ''Alpha'' sampleEntity,
         CallGet laterClock 2 ''cortex/entities/alpha.json'']
        (L1Repository_new None))) = 2
   \<and> completedRequests (metrics (l1_run
        [CallConnect sampleClock 5, CallStore sampleClock 30 ''Alpha'' sampleEntity,
         CallGet laterClock 2 ''cortex/entities/alpha.json'']
        (L1Repository_new None))) = 1
   \<and> averageResponseTime (metrics (l1_run
        [CallConnect sampleClock 5, CallStore sampleClock 30 ''Alpha'' sampleEntity,
         CallGet laterClock 2 ''cortex/entities/alpha.json'']
        (L1Repository_new None))) \<noteq> (30 * (2 - 1) + 2) / 2
   \<and> averageResponseTime (metrics (l1_run
        [CallConnect sampleClock 5, CallStore sampleClock 30 ''Alpha'' sampleEntity,
         CallGet laterClock 2 ''cortex/entities/alpha.json'']
        (L1Repository_new None))) \<noteq> (30 * (1 - 1) + 2) / 1"
  by (simp add: l1_run_def connect_def L1Repository_new_def L1_getEntity_def
        storeEntity_def Let_def validateEntitySchema_def sampleEntity_def updateMetrics_def
        generateFileReference_def toLowerChar_def safeChar_def stripUnderscores_def
        jsonStringifies_def processEntityForStorage_def completedRequests_def)

text \<open>
  Claim C8, amended. A request counted as a success or as a failure raises the count
  \<open>n\<close> of such requests by one and sets the average latency to
  \<open>(avg * (n - 1) + latest) / n\<close>; such are a fetch that the per-locator cache does
  not answer, a store that validation rejects and a store of an entity that serialises.
  A fetch answered from the per-locator cache leaves \<open>n\<close> and the average as they
  were. The average is a real number here.
\<close>

theorem running_average_counted_requests:
  "(countedOnce c s \<longrightarrow>
      completedRequests (metrics (l1_step c s)) = completedRequests (metrics s) + 1 \<and>
      averageResponseTime (metrics (l1_step c s)) =
        (averageResponseTime (metrics s) * (real (completedRequests (metrics (l1_step c s))) - 1)
           + real_of_int (latency c)) / real (completedRequests (metrics (l1_step c s))))
   \<and> (servedFromCache c s \<longrightarrow>
      completedRequests (metrics (l1_step c s)) = completedRequests (metrics s) \<and>
      averageResponseTime (metrics (l1_step c s)) = averageResponseTime (metrics s))"
proof (intro conjI impI)
  assume "countedOnce c s"
  then obtain ok where m: "metrics (l1_step c s) =
      updateMetrics (latency c) ok ((metrics s)\<lparr> totalRequests := totalRequests (metrics s) + 1 \<rparr>)"
    using metrics_of_countedOnce by blast
  show "completedRequests (metrics (l1_step c s)) = completedRequests (metrics s) + 1"
    unfolding m by (simp add: updateMetrics_completed)
  have a: "averageResponseTime ((metrics s)\<lparr> totalRequests := totalRequests (metrics s) + 1 \<rparr>)
             = averageResponseTime (metrics s)"
    by simp
  show "averageResponseTime (metrics (l1_step c s)) =
        (averageResponseTime (metrics s) * (real (completedRequests (metrics (l1_step c s))) - 1)
           + real_of_int (latency c)) / real (completedRequests (metrics (l1_step c s)))"
    unfolding m using updateMetrics_average[of "latency c" ok
        "(metrics s)\<lparr> totalRequests := totalRequests (metrics s) + 1 \<rparr>"]
    by (simp only: a)
next
  assume "servedFromCache c s"
  then have m: "metrics (l1_step c s) =
      (metrics s)\<lparr> totalRequests := totalRequests (metrics s) + 1 \<rparr>"
    by (rule metrics_of_served)
  show "completedRequests (metrics (l1_step c s)) = completedRequests (metrics s)"
    unfolding m by simp
  show "averageResponseTime (metrics (l1_step c s)) = averageResponseTime (metrics s)"
    unfolding m by simp
qed

theorem running_average_counted_requests_witness:
  "countedOnce (CallStore laterClock 10 ''Bad'' (sampleEntity\<lparr> name := None \<rparr>))
     (l1_run [CallConnect sampleClock 5, CallStore sampleClock 30 ''Alpha'' sampleEntity]
        (L1Repository_new None))
   \<and> averageResponseTime (metrics (l1_run
        [CallConnect sampleClock 5, CallStore sampleClock 30 ''Alpha'' sampleEntity]
        (L1Repository_new None))) = 30
   \<and> failedRequests (metrics (l1_run
        [CallConnect sampleClock 5, CallStore sampleClock 30 ''Alpha'' sampleEntity,
         CallStore laterClock 10 ''Bad'' (sampleEntity\<lparr> name := None \<rparr>)]
        (L1Repository_new None))) = 1
   \<and> averageResponseTime (metrics (l1_run
        [CallConnect sampleClock 5, CallStore sampleClock 30 ''Alpha'' sampleEntity,
         CallStore laterClock 10 ''Bad'' (sampleEntity\<lparr> name := None \<rparr>)]
        (L1Repository_new None))) = 20
   \<and> servedFromCache (CallGet laterClock 2 ''cortex/entities/alpha.json'')
     (l1_run [CallConnect sampleClock 5, CallStore sampleClock 30 ''Alpha'' sampleEntity]
        (L1Repository_new None))
   \<and> averageResponseTime (metrics (l1_run
        [CallConnect sampleClock 5, CallStore sampleClock 30 ''Alpha'' sampleEntity,
         CallGet laterClock 2 ''cortex/entities/alpha.json'']
        (L1Repository_new None))) = 30"
  using running_average_counted_requests[of
     "CallStore laterClock 10 ''Bad'' (sampleEntity\<lparr> name := None \<rparr>)"
     "l1_run [CallConnect sampleClock 5, CallStore sampleClock 30 ''Alpha'' sampleEntity]
        (L1Repository_new None)"]
    running_average_counted_requests[of
     "CallGet laterClock 2 ''cortex/entities/alpha.json''"
     "l1_run [CallConnect sampleClock 5, CallStore sampleClock 30 ''Alpha'' sampleEntity]
        (L1Repository_new None)"]
  by (simp add: l1_run_def connect_def L1Repository_new_def completedRequests_def
        storeEntity_def L1_getEntity_def Let_def validateEntitySchema_def sampleEntity_def
        updateMetrics_def generateFileReference_def toLowerChar_def safeChar_def
        stripUnderscores_def jsonStringifies_def processEntityForStorage_def)

subsection \<open>Reads that fail before the cache is consulted\<close>

lemma map_of_update [simp]: "map_of (AList.update k v al) = (map_of al)(k \<mapsto> v)"
  by (rule update_conv')

lemma getLightweightReference_absent:
  "l0_initialized l0 \<Longrightarrow> map_of (lightweightReferences l0) nm = None \<Longrightarrow>
     getLightweightReference now nm l0 = (Inr None, recordAccess now nm l0)"
  by (simp add: getLightweightReference_def recordAccess_def Let_def)

lemma getLightweightReference_present:
  "l0_initialized l0 \<Longrightarrow> map_of (lightweightReferences l0) nm = Some r \<Longrightarrow>
     getLightweightReference now nm l0 =
       (Inr (Some (r\<lparr> lastAccessed := epochMs now, accessCount := accessCount r + 1 \<rparr>)),
        (recordAccess now nm l0)\<lparr> lightweightReferences :=
           AList.update nm (r\<lparr> lastAccessed := epochMs now, accessCount := accessCount r + 1 \<rparr>)
             (lightweightReferences l0) \<rparr>)"
  by (simp add: getLightweightReference_def recordAccess_def Let_def)

text \<open>
  Claim C10. Before the manager is initialised, \<open>getEntity\<close> throws and the whole
  state is as it was.
\<close>

theorem getEntity_uninitialized:
  "\<not> initialized s \<Longrightarrow> getEntity now t nm s = (Inl CortexNotInitialized, s)"
  by (simp add: getEntity_def)

theorem getEntity_uninitialized_witness:
  "\<not> initialized (CortexManager_new None None)
   \<and> getEntity sampleClock 7 ''Alpha'' (CortexManager_new None None)
       = (Inl CortexNotInitialized, CortexManager_new None None)
   \<and> \<not> initialized (snd (initialize sampleClock 5 False (CortexManager_new None None)))
   \<and> fst (getEntity sampleClock 7 ''Cortex_Access_Protocol_v3_0''
            (snd (initialize sampleClock 5 False (CortexManager_new None None))))
       = Inl CortexNotInitialized"
  using getEntity_uninitialized[of "CortexManager_new None None" sampleClock 7 "''Alpha''"]
    getEntity_uninitialized[of "snd (initialize sampleClock 5 False (CortexManager_new None None))"
       sampleClock 7 "''Cortex_Access_Protocol_v3_0''"]
  by (simp add: CortexManager_new_def initialize_def L0_initialize_def connect_def Let_def)

text \<open>
  Claim C4. On an initialised manager, \<open>getEntity\<close> of a name the catalog does not
  hold fails with the not-found error and leaves the bounded cache, the repository
  client with its request counters, and the cache-hit and cache-miss counters as they
  were.
\<close>

theorem getEntity_absent_name:
  assumes "initialized s" and "l0_initialized (l0Bootstrap s)"
    and "map_of (lightweightReferences (l0Bootstrap s)) nm = None"
  shows "fst (getEntity now t nm s) = Inl (EntityNotFound nm)
       \<and> cache (snd (getEntity now t nm s)) = cache s
       \<and> l1Repository (snd (getEntity now t nm s)) = l1Repository s
       \<and> healthMonitor (snd (getEntity now t nm s)) = healthMonitor s"
  using assms by (simp add: getEntity_def getLightweightReference_absent)

lemma readyManager_simps:
  "initialized readyManager"
  "l0_initialized (l0Bootstrap readyManager)"
  "connected (l1Repository readyManager)"
  "cache readyManager = LRUCache_new 100"
  "entityCache (l1Repository readyManager) = Map.empty"
  "basePath (l1Repository readyManager) = ''cortex/entities''"
  "lightweightReferences (l0Bootstrap readyManager) =
     [(''Cortex_Access_Protocol_v3_0'', hd (sampleReferences 1000))]"
  by (simp_all add: readyManager_def initialize_def L0_initialize_def connect_def Let_def
      CortexManager_new_def L0Bootstrap_new_def L1Repository_new_def sampleClock_def
      loadLightweightReferences_def sampleReferences_def)

theorem getEntity_absent_name_witness:
  "initialized readyManager \<and> l0_initialized (l0Bootstrap readyManager)
   \<and> map_of (lightweightReferences (l0Bootstrap readyManager)) ''Alpha'' = None
   \<and> fst (getEntity laterClock 7 ''Alpha'' readyManager) = Inl (EntityNotFound ''Alpha'')
   \<and> cache (snd (getEntity laterClock 7 ''Alpha'' readyManager)) = LRUCache_new 100
   \<and> totalRequests (metrics (l1Repository (snd (getEntity laterClock 7 ''Alpha'' readyManager)))) = 0"
  using getEntity_absent_name[of readyManager "''Alpha''" laterClock 7]
  by (simp add: readyManager_simps) (simp add: readyManager_def initialize_def L0_initialize_def connect_def Let_def
      CortexManager_new_def L1Repository_new_def)

subsection \<open>A read whose fetch fails\<close>

text \<open>
  Claim C5, amended. When the cache misses and the repository's fetch fails,
  \<open>getEntity\<close> fails with the same error, the bounded cache and the hit and miss
  counters are as they were, and the catalog differs only in the reference that was
  looked up: its access count is one higher and its last-access time is the time of
  the read.
\<close>

theorem failed_fetch_leaves_cache_and_names:
  assumes "initialized s" and "l0_initialized (l0Bootstrap s)"
    and "map_of (lightweightReferences (l0Bootstrap s)) nm = Some r"
    and "\<not> lru_has (cache s) (cacheKey nm)"
    and "fst (L1_getEntity now t (fileReference r) (l1Repository s)) = Inl err"
  shows "fst (getEntity now t nm s) = Inl err
       \<and> cache (snd (getEntity now t nm s)) = cache s
       \<and> healthMonitor (snd (getEntity now t nm s)) = healthMonitor s
       \<and> lightweightReferences (l0Bootstrap (snd (getEntity now t nm s))) =
           AList.update nm
             (r\<lparr> lastAccessed := epochMs now, accessCount := accessCount r + 1 \<rparr>)
             (lightweightReferences (l0Bootstrap s))"
proof -
  obtain l1' where f: "L1_getEntity now t (fileReference r) (l1Repository s) = (Inl err, l1')"
    using assms(5) by (cases "L1_getEntity now t (fileReference r) (l1Repository s)") simp
  show ?thesis
    using assms(1,4)
    by (simp add: getEntity_def getLightweightReference_present[OF assms(2,3)] Let_def f)
qed

lemma danglingManager_simps:
  "initialized danglingManager"
  "l0_initialized (l0Bootstrap danglingManager)"
  "connected (l1Repository danglingManager)"
  "cache danglingManager = LRUCache_new 100"
  "entityCache (l1Repository danglingManager) = Map.empty"
  "map_of (lightweightReferences (l0Bootstrap danglingManager)) ''Ghost'' =
     Some \<lparr> entityName = ''Ghost'', fileReference = ''cortex/entities/.json'',
            summary = ''o1'', priority = Low, refSize = Bytes 80, evidenceQuality = T3,
            createdAt = 1000, lastAccessed = 1000, accessCount = 0,
            transferredAt = Some 1000 \<rparr>"
  by (simp_all add: danglingManager_def readyManager_simps createLightweightReference_def
      Let_def generateSummary_def calculatePriority_def calculateSize_def
      extractEvidenceQuality_def sampleEntity_def jsonStringifies_def processEntityForStorage_def sampleClock_def)

lemma dangling_fetch_fails:
  "fst (L1_getEntity laterClock 7 ''cortex/entities/.json'' (l1Repository danglingManager))
     = Inl (FailedToLoad InvalidName)"
  by (simp add: L1_getEntity_def danglingManager_simps Let_def loadEntityFromRepository_def
      validateEntitySchema_def)

theorem failed_fetch_changes_catalog_counterexample:
  "map_option accessCount
      (map_of (lightweightReferences (l0Bootstrap danglingManager)) ''Ghost'') = Some 0
   \<and> \<not> lru_has (cache danglingManager) (cacheKey ''Ghost'')
   \<and> fst (getEntity laterClock 7 ''Ghost'' danglingManager) = Inl (FailedToLoad InvalidName)
   \<and> map_option accessCount
      (map_of (lightweightReferences
         (l0Bootstrap (snd (getEntity laterClock 7 ''Ghost'' danglingManager)))) ''Ghost'') = Some 1
   \<and> lightweightReferences (l0Bootstrap (snd (getEntity laterClock 7 ''Ghost'' danglingManager)))
       \<noteq> lightweightReferences (l0Bootstrap danglingManager)"
proof -
  have 1: "map_option accessCount
      (map_of (lightweightReferences (l0Bootstrap danglingManager)) ''Ghost'') = Some 0"
    by (simp add: danglingManager_simps)
  have 2: "\<not> lru_has (cache danglingManager) (cacheKey ''Ghost'')"
    by (simp add: danglingManager_simps lru_has_def LRUCache_new_def)
  obtain l1' where f: "L1_getEntity laterClock 7 ''cortex/entities/.json''
      (l1Repository danglingManager) = (Inl (FailedToLoad InvalidName), l1')"
    using dangling_fetch_fails
    by (cases "L1_getEntity laterClock 7 ''cortex/entities/.json'' (l1Repository danglingManager)")
       simp
  have 3: "fst (getEntity laterClock 7 ''Ghost'' danglingManager) = Inl (FailedToLoad InvalidName)"
    using 2
    by (simp add: getEntity_def danglingManager_simps(1)
        getLightweightReference_present[OF danglingManager_simps(2,6)] Let_def f)
  have 4: "map_option accessCount
      (map_of (lightweightReferences
         (l0Bootstrap (snd (getEntity laterClock 7 ''Ghost'' danglingManager)))) ''Ghost'') = Some 1"
    using 2
    by (simp add: getEntity_def danglingManager_simps(1)
        getLightweightReference_present[OF danglingManager_simps(2,6)] Let_def f)
  from 1 4 have 5: "lightweightReferences
        (l0Bootstrap (snd (getEntity laterClock 7 ''Ghost'' danglingManager)))
       \<noteq> lightweightReferences (l0Bootstrap danglingManager)"
    by (metis option.inject zero_neq_one)
  from 1 2 3 4 5 show ?thesis by blast
qed

theorem failed_fetch_leaves_cache_and_names_witness:
  "initialized danglingManager \<and> l0_initialized (l0Bootstrap danglingManager)
   \<and> \<not> lru_has (cache danglingManager) (cacheKey ''Ghost'')
   \<and> fst (L1_getEntity laterClock 7 ''cortex/entities/.json'' (l1Repository danglingManager))
        = Inl (FailedToLoad InvalidName)
   \<and> fst (getEntity laterClock 7 ''Ghost'' danglingManager) = Inl (FailedToLoad InvalidName)
   \<and> cache (snd (getEntity laterClock 7 ''Ghost'' danglingManager)) = LRUCache_new 100
   \<and> map fst (lightweightReferences
        (l0Bootstrap (snd (getEntity laterClock 7 ''Ghost'' danglingManager))))
       = map fst (lightweightReferences (l0Bootstrap danglingManager))"
proof -
  have 2: "\<not> lru_has (cache danglingManager) (cacheKey ''Ghost'')"
    by (simp add: danglingManager_simps lru_has_def LRUCache_new_def)
  have k: "map fst (AList.update ''Ghost'' v (lightweightReferences (l0Bootstrap danglingManager)))
       = map fst (lightweightReferences (l0Bootstrap danglingManager))" for v
    by (simp add: danglingManager_def readyManager_simps createLightweightReference_def Let_def
        sampleEntity_def jsonStringifies_def)
  from failed_fetch_leaves_cache_and_names[OF danglingManager_simps(1,2,6) 2, of laterClock 7
      "FailedToLoad InvalidName"] dangling_fetch_fails 2 danglingManager_simps(1,2,4) k
  show ?thesis by simp
qed

subsection \<open>Writing an entity and reading it back\<close>

lemma map_of_filter_other:
  "map_of (filter (\<lambda>p. fst p \<noteq> k') es) k = (if k = k' then None else map_of es k)"
  by (induction es) auto

lemma map_of_lru_get: "map_of (entries (snd (lru_get c k'))) k = map_of (entries c) k"
proof (cases "map_of (entries c) k'")
  case None
  then show ?thesis by (simp add: lru_get_def)
next
  case (Some v)
  then show ?thesis
    by (auto simp: lru_get_def map_of_filter_other map_add_def split: option.splits)
qed

lemma map_of_tl_distinct:
  assumes "distinct (map fst es)" "map_of (tl es) k = Some y"
  shows "map_of es k = Some y"
proof -
  from assms(2) have "(k, y) \<in> set (tl es)" by (rule map_of_SomeD)
  then have "(k, y) \<in> set es" by (metis list.sel(2) list.set_sel(2))
  with assms(1) show ?thesis by simp
qed

lemma lru_set_own_value:
  assumes "lru_has (lru_set c k v) k"
  shows "map_of (entries (lru_set c k v)) k = Some v"
proof -
  define es where "es = filter (\<lambda>p. fst p \<noteq> k) (entries c) @ [(k, v)]"
  have all: "map_of es k = Some v" by (simp add: es_def map_of_filter_other map_add_def)
  have d: "(k, y) \<in> set es \<Longrightarrow> y = v" for y by (auto simp: es_def)
  have ent: "entries (lru_set c k v) = (if length es > capacity c then tl es else es)"
    by (simp add: lru_set_def es_def Let_def)
  show ?thesis
  proof (cases "length es > capacity c")
    case True
    with assms ent obtain y where y: "map_of (tl es) k = Some y" by (auto simp: lru_has_def)
    then have "(k, y) \<in> set (tl es)" by (rule map_of_SomeD)
    then have "(k, y) \<in> set es" by (metis list.sel(2) list.set_sel(2))
    with d y True ent show ?thesis by simp
  next
    case False
    with ent all show ?thesis by simp
  qed
qed

lemma lru_set_other_value:
  assumes "distinct (map fst (entries c))" "k \<noteq> k'" "map_of (entries c) k = Some e"
    "lru_has (lru_set c k' v) k"
  shows "map_of (entries (lru_set c k' v)) k = Some e"
proof -
  define es where "es = filter (\<lambda>p. fst p \<noteq> k') (entries c) @ [(k', v)]"
  have all: "map_of es k = Some e"
    using assms(2,3) by (simp add: es_def map_of_filter_other map_add_def)
  have des: "distinct (map fst es)" using assms(1) by (auto simp: es_def distinct_map_filter)
  have ent: "entries (lru_set c k' v) = (if length es > capacity c then tl es else es)"
    by (simp add: lru_set_def es_def Let_def)
  show ?thesis
  proof (cases "length es > capacity c")
    case True
    with assms(4) ent obtain y where y: "map_of (tl es) k = Some y" by (auto simp: lru_has_def)
    from map_of_tl_distinct[OF des y] all have "y = e" by simp
    with y True ent show ?thesis by simp
  next
    case False
    with ent all show ?thesis by simp
  qed
qed


lemma cacheKey_inject [simp]: "cacheKey a = cacheKey b \<longleftrightarrow> a = b"
  by (simp add: cacheKey_def)

lemma lru_has_get: "lru_has c k \<Longrightarrow> \<exists>v. lru_get c k = (Some v, snd (lru_get c k))"
  by (auto simp: lru_has_def lru_get_def)

text \<open>What one call does to the bounded cache.\<close>

lemma cache_after_getEntity:
  "cache (snd (getEntity now t n s)) = cache s
   \<or> (lru_has (cache s) (cacheKey n) \<and>
        cache (snd (getEntity now t n s)) = snd (lru_get (cache s) (cacheKey n)))
   \<or> (\<not> lru_has (cache s) (cacheKey n) \<and>
        (\<exists>v. cache (snd (getEntity now t n s)) = lru_set (cache s) (cacheKey n) v))"
  by (auto simp: getEntity_def Let_def split: prod.splits sum.splits option.splits)

lemma cache_after_putEntity:
  "cache (snd (putEntity now t sz n e s)) = cache s
   \<or> cache (snd (putEntity now t sz n e s)) = lru_set (cache s) (cacheKey n) e"
  by (auto simp: putEntity_def split: prod.splits sum.splits)

lemma step_cache_ok: "lru_ok (cache s) \<Longrightarrow> lru_ok (cache (step c s))"
proof (cases c)
  case (Get now t n)
  assume "lru_ok (cache s)"
  with cache_after_getEntity[of now t n s] Get show ?thesis
    by (auto simp: lru_set_ok lru_get_ok)
next
  case (Put now t sz n e)
  assume "lru_ok (cache s)"
  with cache_after_putEntity[of now t sz n e s] Put show ?thesis
    by (auto simp: lru_set_ok)
qed

lemma step_cache_value:
  assumes "lru_ok (cache s)" "map_of (entries (cache s)) (cacheKey nm) = Some e"
    "\<not> writesName nm c" "lru_has (cache (step c s)) (cacheKey nm)"
  shows "map_of (entries (cache (step c s))) (cacheKey nm) = Some e"
proof -
  from assms(1) have d: "distinct (map fst (entries (cache s)))" by (simp add: lru_ok_def)
  from assms(2) have has: "lru_has (cache s) (cacheKey nm)" by (simp add: lru_has_def)
  show ?thesis
  proof (cases c)
    case (Get now t n)
    from cache_after_getEntity[of now t n s]
    consider "cache (step c s) = cache s"
      | "cache (step c s) = snd (lru_get (cache s) (cacheKey n))"
      | v where "\<not> lru_has (cache s) (cacheKey n)"
          "cache (step c s) = lru_set (cache s) (cacheKey n) v"
      unfolding Get step.simps by blast
    then show ?thesis
    proof cases
      case 1
      with assms(2) show ?thesis by simp
    next
      case 2
      with assms(2) show ?thesis by (simp add: map_of_lru_get)
    next
      case 3
      from 3(1) has have "cacheKey nm \<noteq> cacheKey n" by auto
      from lru_set_other_value[OF d this assms(2)] assms(4) 3(2) show ?thesis by simp
    qed
  next
    case (Put now t sz n e')
    with assms(3) have "cacheKey nm \<noteq> cacheKey n" by simp
    from lru_set_other_value[OF d this assms(2)] assms(4)
      cache_after_putEntity[of now t sz n e' s] assms(2)
    show ?thesis unfolding Put step.simps by auto
  qed
qed

text \<open>What one call does to the flags and to the catalog's set of names.\<close>

lemma recordAccess_fields [simp]:
  "l0_initialized (recordAccess now n l0) = l0_initialized l0"
  "lightweightReferences (recordAccess now n l0) = lightweightReferences l0"
  by (simp_all add: recordAccess_def Let_def)

lemma getLightweightReference_keeps:
  "l0_initialized (snd (getLightweightReference now n l0)) = l0_initialized l0"
  "map_of (lightweightReferences l0) nm \<noteq> None \<Longrightarrow>
     map_of (lightweightReferences (snd (getLightweightReference now n l0))) nm \<noteq> None"
  by (auto simp: getLightweightReference_def Let_def split: option.splits)

lemma createLightweightReference_keeps:
  "l0_initialized (snd (createLightweightReference now sz n e loc l0)) = l0_initialized l0"
  "map_of (lightweightReferences l0) nm \<noteq> None \<Longrightarrow>
     map_of (lightweightReferences (snd (createLightweightReference now sz n e loc l0))) nm \<noteq> None"
  by (auto simp: createLightweightReference_def Let_def)

lemma l0_after_getEntity:
  "l0Bootstrap (snd (getEntity now t n s)) = l0Bootstrap s
   \<or> l0Bootstrap (snd (getEntity now t n s)) = snd (getLightweightReference now n (l0Bootstrap s))"
  by (auto simp: getEntity_def Let_def split: prod.splits sum.splits option.splits)

lemma l0_after_putEntity:
  "l0Bootstrap (snd (putEntity now t sz n e s)) = l0Bootstrap s
   \<or> (\<exists>loc. l0Bootstrap (snd (putEntity now t sz n e s)) =
              snd (createLightweightReference now sz n e loc (l0Bootstrap s)))"
proof (cases "storeEntity now t n e (l1Repository s)")
  case (Pair res l1')
  show ?thesis
  proof (cases res)
    case (Inl err)
    with Pair show ?thesis by (simp add: putEntity_def)
  next
    case (Inr loc)
    have "l0Bootstrap (snd (putEntity now t sz n e s)) =
            snd (createLightweightReference now sz n e loc (l0Bootstrap s))"
      using Pair Inr by (simp add: putEntity_def split: prod.splits sum.splits)
    then show ?thesis by blast
  qed
qed

lemma initialized_after_getEntity [simp]:
  "initialized (snd (getEntity now t n s)) = initialized s"
  by (auto simp: getEntity_def Let_def split: prod.splits sum.splits option.splits)

lemma initialized_after_putEntity [simp]:
  "initialized (snd (putEntity now t sz n e s)) = initialized s"
  by (auto simp: putEntity_def split: prod.splits sum.splits)

lemma step_keeps_initialized: "initialized (step c s) = initialized s"
  by (cases c) simp_all

lemma step_keeps_l0_initialized:
  "l0_initialized (l0Bootstrap (step c s)) = l0_initialized (l0Bootstrap s)"
proof (cases c)
  case (Get now t n)
  with l0_after_getEntity[of now t n s] show ?thesis
    by (auto simp: getLightweightReference_keeps)
next
  case (Put now t sz n e)
  with l0_after_putEntity[of now t sz n e s] show ?thesis
    by (auto simp: createLightweightReference_keeps)
qed

lemma step_keeps_reference:
  assumes "map_of (lightweightReferences (l0Bootstrap s)) nm \<noteq> None"
  shows "map_of (lightweightReferences (l0Bootstrap (step c s))) nm \<noteq> None"
proof (cases c)
  case (Get now t n)
  from l0_after_getEntity[of now t n s]
  show ?thesis
  proof
    assume "l0Bootstrap (snd (getEntity now t n s)) = l0Bootstrap s"
    with assms Get show ?thesis by simp
  next
    assume "l0Bootstrap (snd (getEntity now t n s)) =
              snd (getLightweightReference now n (l0Bootstrap s))"
    with getLightweightReference_keeps(2)[OF assms, of now n] Get show ?thesis by simp
  qed
next
  case (Put now t sz n e)
  from l0_after_putEntity[of now t sz n e s]
  show ?thesis
  proof
    assume "l0Bootstrap (snd (putEntity now t sz n e s)) = l0Bootstrap s"
    with assms Put show ?thesis by simp
  next
    assume "\<exists>loc. l0Bootstrap (snd (putEntity now t sz n e s)) =
              snd (createLightweightReference now sz n e loc (l0Bootstrap s))"
    then obtain loc where "l0Bootstrap (snd (putEntity now t sz n e s)) =
              snd (createLightweightReference now sz n e loc (l0Bootstrap s))" by blast
    with createLightweightReference_keeps(2)[OF assms, of now sz n e loc] Put
    show ?thesis by simp
  qed
qed

lemma holds_run:
  assumes "holds nm e s" "\<forall>c \<in> set calls. \<not> writesName nm c"
    "retained (cacheKey nm) calls s"
  shows "holds nm e (cortex_run calls s)"
  using assms
proof (induction calls arbitrary: s)
  case Nil
  then show ?case by (simp add: cortex_run_def)
next
  case (Cons c calls)
  have run: "cortex_run (c # calls) s = cortex_run calls (step c s)"
    by (simp add: cortex_run_def)
  from Cons.prems(3) have r: "retained (cacheKey nm) calls (step c s)" by simp
  then have has: "lru_has (cache (step c s)) (cacheKey nm)" by (cases calls) simp_all
  from Cons.prems(2) have nw: "\<not> writesName nm c" by simp
  from Cons.prems(1) have h: "initialized s" "l0_initialized (l0Bootstrap s)"
    "map_of (lightweightReferences (l0Bootstrap s)) nm \<noteq> None" "lru_ok (cache s)"
    "map_of (entries (cache s)) (cacheKey nm) = Some e"
    by (simp_all add: holds_def)
  have "holds nm e (step c s)"
    unfolding holds_def
    using h step_keeps_initialized[of c s] step_keeps_l0_initialized[of c s]
      step_keeps_reference[OF h(3), of c] step_cache_ok[OF h(4), of c]
      step_cache_value[OF h(4) h(5) nw has] by simp
  from Cons.IH[OF this] Cons.prems(2) r show ?case unfolding run by simp
qed

lemma getEntity_of_held:
  assumes "holds nm e s"
  shows "fst (getEntity now t nm s) = Inr e"
proof -
  from assms obtain r where r: "map_of (lightweightReferences (l0Bootstrap s)) nm = Some r"
    and i: "initialized s" "l0_initialized (l0Bootstrap s)"
    and v: "map_of (entries (cache s)) (cacheKey nm) = Some e"
    by (auto simp: holds_def)
  from v have has: "lru_has (cache s) (cacheKey nm)" by (simp add: lru_has_def)
  from v obtain c' where get: "lru_get (cache s) (cacheKey nm) = (Some e, c')"
    by (simp add: lru_get_def)
  show ?thesis
    using i has
    by (simp add: getEntity_def getLightweightReference_present[OF i(2) r] Let_def get)
qed

lemma putEntity_success:
  assumes "putEntity now t sz nm e s = (Inr loc, s1)"
  shows "initialized s1 = initialized s" "l0_initialized (l0Bootstrap s1)"
    "map_of (lightweightReferences (l0Bootstrap s1)) nm \<noteq> None"
    "cache s1 = lru_set (cache s) (cacheKey nm) e"
  using assms
  by (auto simp: putEntity_def createLightweightReference_def Let_def
      split: prod.splits sum.splits if_splits)

text \<open>
  Claim C1. An entity written successfully on an initialised manager and read back by
  name, after any calls that are not writes of that name and throughout which its
  cache entry was never missing, is returned as it was written.
\<close>

theorem write_then_read_roundtrip:
  assumes "initialized s" and "lru_ok (cache s)"
    and "putEntity now t sz nm e s = (Inr loc, s1)"
    and "\<forall>c \<in> set calls. \<not> writesName nm c"
    and "retained (cacheKey nm) calls s1"
  shows "fst (getEntity now' t' nm (cortex_run calls s1)) = Inr e"
proof -
  note p = putEntity_success[OF assms(3)]
  from assms(5) have "lru_has (cache s1) (cacheKey nm)" by (cases calls) simp_all
  then have "map_of (entries (cache s1)) (cacheKey nm) = Some e"
    unfolding p(4) by (rule lru_set_own_value)
  moreover have "lru_ok (cache s1)" unfolding p(4) by (rule lru_set_ok) (rule assms(2))
  ultimately have "holds nm e s1" using p(1-3) assms(1) by (simp add: holds_def)
  then have "holds nm e (cortex_run calls s1)" using assms(4,5) by (rule holds_run)
  then show ?thesis by (rule getEntity_of_held)
qed

lemma written_state:
  "fst (putEntity sampleClock 30 61 ''Alpha'' sampleEntity readyManager)
     = Inr ''cortex/entities/alpha.json''"
  "entries (cache (snd (putEntity sampleClock 30 61 ''Alpha'' sampleEntity readyManager)))
     = [(''entity:Alpha'', sampleEntity)]"
  "capacity (cache (snd (putEntity sampleClock 30 61 ''Alpha'' sampleEntity readyManager))) = 100"
  by (simp_all add: putEntity_def storeEntity_def createLightweightReference_def Let_def
      readyManager_simps validateEntitySchema_def sampleEntity_def jsonStringifies_def processEntityForStorage_def generateFileReference_def
      toLowerChar_def safeChar_def stripUnderscores_def lru_set_def LRUCache_new_def
      cacheKey_def)


lemma written_state_more:
  "initialized (snd (putEntity sampleClock 30 61 ''Alpha'' sampleEntity readyManager))"
  "l0_initialized (l0Bootstrap (snd (putEntity sampleClock 30 61 ''Alpha'' sampleEntity readyManager)))"
  "connected (l1Repository (snd (putEntity sampleClock 30 61 ''Alpha'' sampleEntity readyManager)))"
  "map_of (lightweightReferences (l0Bootstrap
       (snd (putEntity sampleClock 30 61 ''Alpha'' sampleEntity readyManager))))
     ''Cortex_Access_Protocol_v3_0'' = Some (hd (sampleReferences 1000))"
  "entityCache (l1Repository (snd (putEntity sampleClock 30 61 ''Alpha'' sampleEntity readyManager)))
     ''cortex/entities/cortex_access_protocol_v3_0.json'' = None"
  by (simp_all add: putEntity_def storeEntity_def createLightweightReference_def Let_def
      readyManager_simps validateEntitySchema_def sampleEntity_def jsonStringifies_def processEntityForStorage_def generateFileReference_def
      toLowerChar_def safeChar_def stripUnderscores_def)

lemma read_of_bootstrap_keeps_alpha:
  "lru_has (cache (step (Get laterClock 7 ''Cortex_Access_Protocol_v3_0'')
       (snd (putEntity sampleClock 30 61 ''Alpha'' sampleEntity readyManager))))
     (cacheKey ''Alpha'')"
  by (simp add: getEntity_def getLightweightReference_present[OF written_state_more(2,4)]
      written_state_more written_state lru_has_def cacheKey_def Let_def
      L1_getEntity_def sampleReferences_def loadEntityFromRepository_def
      validateEntitySchema_def lru_set_def)

theorem write_then_read_roundtrip_witness:
  "initialized readyManager \<and> lru_ok (cache readyManager)
   \<and> fst (putEntity sampleClock 30 61 ''Alpha'' sampleEntity readyManager)
        = Inr ''cortex/entities/alpha.json''
   \<and> retained (cacheKey ''Alpha'') [Get laterClock 7 ''Cortex_Access_Protocol_v3_0'']
        (snd (putEntity sampleClock 30 61 ''Alpha'' sampleEntity readyManager))
   \<and> fst (getEntity laterClock 9 ''Alpha''
        (cortex_run [Get laterClock 7 ''Cortex_Access_Protocol_v3_0'']
           (snd (putEntity sampleClock 30 61 ''Alpha'' sampleEntity readyManager))))
        = Inr sampleEntity"
proof -
  have i: "initialized readyManager" by (simp add: readyManager_simps)
  have ok: "lru_ok (cache readyManager)" by (simp add: readyManager_simps lru_new_ok)
  have p: "putEntity sampleClock 30 61 ''Alpha'' sampleEntity readyManager =
      (Inr ''cortex/entities/alpha.json'',
       snd (putEntity sampleClock 30 61 ''Alpha'' sampleEntity readyManager))"
    using written_state(1) by (simp add: prod_eq_iff)
  have w: "\<forall>c \<in> set [Get laterClock 7 ''Cortex_Access_Protocol_v3_0'']. \<not> writesName ''Alpha'' c"
    by simp
  have r: "retained (cacheKey ''Alpha'') [Get laterClock 7 ''Cortex_Access_Protocol_v3_0'']
        (snd (putEntity sampleClock 30 61 ''Alpha'' sampleEntity readyManager))"
    using read_of_bootstrap_keeps_alpha
    by (simp add: lru_has_def written_state cacheKey_def)
  from write_then_read_roundtrip[OF i ok p w r, of laterClock 9] i ok written_state(1) r
  show ?thesis by simp
qed

subsection \<open>States reached from the constructor\<close>

text \<open>
  Every state reached from a new manager by a successful \<open>initialize\<close> and any calls
  is initialised, has an initialised catalog, and has a bounded cache with one entry for
  each key and within its capacity.
\<close>

lemma initialize_success:
  assumes "fst (initialize now connectionTime ok s) = Inr ()"
  shows "initialized (snd (initialize now connectionTime ok s))"
    and "l0_initialized (l0Bootstrap (snd (initialize now connectionTime ok s)))"
    and "connected (l1Repository (snd (initialize now connectionTime ok s)))"
    and "cache (snd (initialize now connectionTime ok s)) = cache s"
  using assms
  by (auto simp: initialize_def L0_initialize_def connect_def Let_def split: if_splits)

lemma initialize_failure:
  assumes "fst (initialize now connectionTime ok s) \<noteq> Inr ()"
  shows "initialized (snd (initialize now connectionTime ok s)) = initialized s"
  using assms
  by (auto simp: initialize_def L0_initialize_def connect_def Let_def split: if_splits)

lemma new_manager_cache_ok: "lru_ok (cache (CortexManager_new cfgCacheSize cfgBasePath))"
  by (simp add: CortexManager_new_def lru_new_ok)

lemma cortex_run_keeps:
  assumes "initialized s" "l0_initialized (l0Bootstrap s)" "lru_ok (cache s)"
  shows "initialized (cortex_run calls s) \<and> l0_initialized (l0Bootstrap (cortex_run calls s))
         \<and> lru_ok (cache (cortex_run calls s))"
  using assms
proof (induction calls arbitrary: s)
  case Nil
  then show ?case by (simp add: cortex_run_def)
next
  case (Cons c calls)
  have run: "cortex_run (c # calls) s = cortex_run calls (step c s)"
    by (simp add: cortex_run_def)
  show ?case
    unfolding run
    by (rule Cons.IH)
       (simp_all add: Cons.prems step_keeps_initialized step_keeps_l0_initialized step_cache_ok)
qed

lemma reachable_state_ready:
  assumes "fst (initialize now connectionTime ok (CortexManager_new cfgCacheSize cfgBasePath)) = Inr ()"
  shows "initialized (cortex_run calls
           (snd (initialize now connectionTime ok (CortexManager_new cfgCacheSize cfgBasePath))))
       \<and> l0_initialized (l0Bootstrap (cortex_run calls
           (snd (initialize now connectionTime ok (CortexManager_new cfgCacheSize cfgBasePath)))))
       \<and> lru_ok (cache (cortex_run calls
           (snd (initialize now connectionTime ok (CortexManager_new cfgCacheSize cfgBasePath)))))"
  by (rule cortex_run_keeps)
     (simp_all add: initialize_success[OF assms] new_manager_cache_ok)

subsection \<open>The catalog after initialisation\<close>

text \<open>
  Claim C2 (the source departs from it). The source has no durable reference store to
  load from, and \<open>initialize\<close> on a newly constructed catalog ends with exactly one
  reference, the hard-coded sample, where the claim expects none. The comment in
  \<open>loadLightweightReferences\<close> announces an empty state before the sample is inserted.
\<close>

theorem initialize_seeds_sample_reference:
  "fst (L0_initialize now L0Bootstrap_new) = Inr 1 \<and>
   referencesCount (snd (L0_initialize now L0Bootstrap_new)) = 1 \<and>
   map fst (lightweightReferences (snd (L0_initialize now L0Bootstrap_new)))
     = [''Cortex_Access_Protocol_v3_0'']"
  by (simp add: L0_initialize_def loadLightweightReferences_def sampleReferences_def
      L0Bootstrap_new_def referencesCount_def Let_def)

subsection \<open>The quality tag\<close>

lemma scanObservations_unmarked:
  "\<forall>obs \<in> set os. \<not> hasTierMarker obs \<Longrightarrow> scanObservations os = T3"
  by (induction os) (simp_all add: hasTierMarker_def)

lemma scanObservations_first_marked:
  assumes "\<forall>obs \<in> set pre. \<not> hasTierMarker obs" "hasTierMarker obs"
  shows "scanObservations (pre @ obs # post) =
           (if str_includes obs ''T1'' then T1
            else if str_includes obs ''T2'' then T2 else T3)"
  using assms by (induction pre) (auto simp: hasTierMarker_def)

theorem quality_tag_later_T1_counterexample:
  "observations otherEntity = Some [''T2 first'', ''T1 later'']
   \<and> str_includes ''T1 later'' ''T1''
   \<and> extractEvidenceQuality otherEntity = T2"
  by (simp add: otherEntity_def extractEvidenceQuality_def)

text \<open>
  Claim C6, amended. The tag is decided by the first observation that contains any of
  the markers: T1 if it contains \<open>"T1"\<close>, else T2 if it contains \<open>"T2"\<close>, else T3.
  Without observations, or when no observation contains a marker, the tag is T3.
\<close>

theorem quality_tag_first_marked_observation:
  "(observations e = Some (pre @ obs # post) \<and> (\<forall>x \<in> set pre. \<not> hasTierMarker x)
      \<and> hasTierMarker obs
      \<longrightarrow> extractEvidenceQuality e =
            (if str_includes obs ''T1'' then T1
             else if str_includes obs ''T2'' then T2 else T3))
   \<and> (observations e = Some os \<and> (\<forall>x \<in> set os. \<not> hasTierMarker x)
      \<longrightarrow> extractEvidenceQuality e = T3)
   \<and> (observations e = None \<longrightarrow> extractEvidenceQuality e = T3)"
  by (auto simp: extractEvidenceQuality_def scanObservations_first_marked
      scanObservations_unmarked)

theorem quality_tag_first_marked_observation_witness:
  "extractEvidenceQuality
     \<lparr> name = Some ''Gamma'', entityType = Some ''Fact'',
       observations = Some ([''plain text''] @ ''T2 and T1 in one'' # [''T2 later'']),
       metadata = [] \<rparr> = T1
   \<and> extractEvidenceQuality sampleEntity = T3"
  using quality_tag_first_marked_observation[of
      "\<lparr> name = Some ''Gamma'', entityType = Some ''Fact'',
         observations = Some ([''plain text''] @ ''T2 and T1 in one'' # [''T2 later'']),
         metadata = [] \<rparr>" "[''plain text'']" "''T2 and T1 in one''" "[''T2 later'']" "[]"]
    quality_tag_first_marked_observation[of sampleEntity "[]" "[]" "[]" "[''o1'']"]
  by (simp add: hasTierMarker_def sampleEntity_def)

subsection \<open>The access tracker\<close>

lemma calculateAccessFrequency_ms:
  "calculateAccessFrequency now (Some t) =
     (if epochMs now - t < 3600000 then FreqVeryHigh
      else if epochMs now - t < 24 * 3600000 then FreqHigh
      else if epochMs now - t < 168 * 3600000 then FreqMedium
      else FreqLow)"
  by (simp add: calculateAccessFrequency_def Let_def)

text \<open>
  Claim C7. \<open>recordAccess\<close> leaves for the name a pattern whose count is one more
  than before (one for a first access), whose time is the time of the call, and whose
  frequency class comes from the time elapsed since the previous access: none is new,
  under 1 hour is very high, under 24 hours is high, under 168 hours is medium, and
  anything longer is low. Times are in milliseconds.
\<close>

theorem recordAccess_updates_pattern:
  "accessPatterns (recordAccess now nm s) nm =
     Some \<lparr> count = (case accessPatterns s nm of None \<Rightarrow> 0 | Some p \<Rightarrow> count p) + 1,
            lastAccess = epochMs now,
            frequency =
              (case accessPatterns s nm of
                 None \<Rightarrow> FreqNew
               | Some p \<Rightarrow>
                   (if epochMs now - lastAccess p < 3600000 then FreqVeryHigh
                    else if epochMs now - lastAccess p < 24 * 3600000 then FreqHigh
                    else if epochMs now - lastAccess p < 168 * 3600000 then FreqMedium
                    else FreqLow)) \<rparr>"
  by (simp add: recordAccess_def calculateAccessFrequency_ms calculateAccessFrequency_def
      split: option.splits)

theorem recordAccess_updates_pattern_witness:
  "accessPatterns (recordAccess sampleClock ''Alpha'' L0Bootstrap_new) ''Alpha''
     = Some \<lparr> count = 1, lastAccess = 1000, frequency = FreqNew \<rparr>
   \<and> accessPatterns (recordAccess laterClock ''Alpha''
        (recordAccess sampleClock ''Alpha'' L0Bootstrap_new)) ''Alpha''
     = Some \<lparr> count = 2, lastAccess = 5000, frequency = FreqVeryHigh \<rparr>
   \<and> accessPatterns (recordAccess \<lparr> epochMs = 3601000, isoString = ''1970-01-01T01:00:01.000Z'' \<rparr>
        ''Alpha'' (recordAccess sampleClock ''Alpha'' L0Bootstrap_new)) ''Alpha''
     = Some \<lparr> count = 2, lastAccess = 3601000, frequency = FreqHigh \<rparr>"
  using recordAccess_updates_pattern[of sampleClock "''Alpha''" L0Bootstrap_new]
    recordAccess_updates_pattern[of laterClock "''Alpha''"
      "recordAccess sampleClock ''Alpha'' L0Bootstrap_new"]
    recordAccess_updates_pattern[of
      "\<lparr> epochMs = 3601000, isoString = ''1970-01-01T01:00:01.000Z'' \<rparr>" "''Alpha''"
      "recordAccess sampleClock ''Alpha'' L0Bootstrap_new"]
  by (simp add: L0Bootstrap_new_def sampleClock_def laterClock_def)

end
